theory Spec2Isabelle
  imports Complex_Main
begin

section \<open>Selective search: region bookkeeping and greedy hierarchical merging\<close>

text \<open>
  A shallow embedding of \<^verbatim>\<open>selectivesearch/selectivesearch.py\<close>.

  Conventions of the embedding:
  \<^item> Python ints (pixel coordinates, pixel counts, bounding-box areas, the image size) are
    \<open>int\<close>; region keys, segment labels and bin indices, which are never negative, are
    \<open>nat\<close> (the source turns the keys of merged regions into floats by \<^verbatim>\<open>+ 1.0\<close>; these
    floats are whole numbers and hash and compare like the ints);
  \<^item> float64 values (histogram entries, similarity scores) are idealised as \<open>real\<close>: two
    scores that are equal as reals can differ in the last bit as float64 values, so the
    model follows the order of the merges of the code only where the greatest score is
    attained once, or attained by scores that float64 computes equal;
  \<^item> a Python dict is an association list in insertion order, which is the order in which
    Python iterates it;
  \<^item> an exception is a value \<open>Inl e\<close> of the result type \<open>error + 'a\<close>.
\<close>

subsection \<open>Errors and dictionaries\<close>

datatype error = AssertionError | IndexError | KeyError | ValueError | ZeroDivisionError

text \<open>\<^verbatim>\<open>d[k]\<close>: raises KeyError when the key is absent.\<close>

definition dict_get :: "('k \<times> 'v) list \<Rightarrow> 'k \<Rightarrow> error + 'v" where
  "dict_get d k = (case map_of d k of None \<Rightarrow> Inl KeyError | Some v \<Rightarrow> Inr v)"

text \<open>\<^verbatim>\<open>d[k] = v\<close>: an existing key keeps its position, a new key goes to the end.\<close>

fun dict_set :: "('k \<times> 'v) list \<Rightarrow> 'k \<Rightarrow> 'v \<Rightarrow> ('k \<times> 'v) list" where
  "dict_set [] k v = [(k, v)]"
| "dict_set ((k', v') # d) k v =
     (if k' = k then (k', v) # d else (k', v') # dict_set d k v)"

text \<open>
  \<^verbatim>\<open>del d[k]\<close>. The source only deletes keys that it has just collected from the same
  dictionary, each once, so the KeyError of a missing key cannot arise there.
\<close>

definition dict_del :: "('k \<times> 'v) list \<Rightarrow> 'k \<Rightarrow> ('k \<times> 'v) list" where
  "dict_del d k = filter (\<lambda>kv. fst kv \<noteq> k) d"

subsection \<open>Regions\<close>

text \<open>
  The dictionaries that describe a region, as records. \<open>box\<close> has the keys that pass 1 of
  \<^verbatim>\<open>_extract_regions\<close> sets, \<open>region0\<close> adds those of pass 3, and \<open>region\<close> adds the
  \<^verbatim>\<open>og_*\<close> keys that exist from \<^verbatim>\<open>_expand_regions\<close> on. The key \<^verbatim>\<open>size\<close> is the field
  \<open>size_r\<close>.
\<close>

record box =
  min_x :: int
  min_y :: int
  max_x :: int
  max_y :: int
  labels :: "nat list"
  bbox_size :: int

record region0 = box +
  size_r :: int
  hist_c :: "real list"
  hist_t :: "real list"

record region = region0 +
  og_min_x :: int
  og_min_y :: int
  og_max_x :: int
  og_max_y :: int

type_synonym key = nat
type_synonym rtable = "(key \<times> region) list"
type_synonym stable = "((key \<times> key) \<times> real) list"

subsection \<open>Similarity (\<^verbatim>\<open>_sim_colour\<close>, \<^verbatim>\<open>_sim_texture\<close>, \<^verbatim>\<open>_sim_size\<close>, \<^verbatim>\<open>_sim_fill\<close>, \<^verbatim>\<open>_calc_sim\<close>)\<close>

definition sim_colour :: "region \<Rightarrow> region \<Rightarrow> real" where
  "sim_colour r1 r2 = sum_list (map (\<lambda>(a, b). min a b) (zip (hist_c r1) (hist_c r2)))"

definition sim_texture :: "region \<Rightarrow> region \<Rightarrow> real" where
  "sim_texture r1 r2 = sum_list (map (\<lambda>(a, b). min a b) (zip (hist_t r1) (hist_t r2)))"

text \<open>
  \<^verbatim>\<open>size\<close> and \<^verbatim>\<open>imsize\<close> are Python ints, so the true division raises ZeroDivisionError
  when \<^verbatim>\<open>imsize\<close> is 0.
\<close>

definition sim_size :: "region \<Rightarrow> region \<Rightarrow> int \<Rightarrow> error + real" where
  "sim_size r1 r2 imsize =
     (if imsize = 0 then Inl ZeroDivisionError
      else Inr (1 - real_of_int (size_r r1 + size_r r2) / real_of_int imsize))"

definition sim_fill :: "region \<Rightarrow> region \<Rightarrow> int \<Rightarrow> error + real" where
  "sim_fill r1 r2 imsize =
     (let bbsize = (max (max_x r1) (max_x r2) - min (min_x r1) (min_x r2))
                 * (max (max_y r1) (max_y r2) - min (min_y r1) (min_y r2))
      in if imsize = 0 then Inl ZeroDivisionError
         else Inr (1 - real_of_int (bbsize - size_r r1 - size_r r2) / real_of_int imsize))"

definition calc_sim :: "region \<Rightarrow> region \<Rightarrow> int \<Rightarrow> error + real" where
  "calc_sim r1 r2 imsize =
     (case sim_size r1 r2 imsize of
        Inl e \<Rightarrow> Inl e
      | Inr ss \<Rightarrow>
          (case sim_fill r1 r2 imsize of
             Inl e \<Rightarrow> Inl e
           | Inr sf \<Rightarrow> Inr (sim_colour r1 r2 + sim_texture r1 r2 + ss + sf)))"

subsection \<open>Merging and expanding regions (\<^verbatim>\<open>_merge_regions\<close>, \<^verbatim>\<open>_expand_regions\<close>)\<close>

text \<open>
  The histograms are numpy arrays of one length (75 and 30), combined elementwise:
  \<^verbatim>\<open>(h1 * size1 + h2 * size2) / new_size\<close>. The key \<^verbatim>\<open>bbox_size\<close> does not exist in
  \<^verbatim>\<open>rt\<close> (nor in \<^verbatim>\<open>r_new\<close> below) before the assignment that follows the dict display;
  the record holds 0 there until that assignment. The division of the histograms is numpy's
  and raises nothing; for \<^verbatim>\<open>new_size = 0\<close> it gives NaN where the model gives 0, so the
  histograms of the model stand for regions of positive size (a region of the table has at
  least one pixel).
\<close>

definition weighted_hist :: "real list \<Rightarrow> int \<Rightarrow> real list \<Rightarrow> int \<Rightarrow> real list" where
  "weighted_hist h1 s1 h2 s2 =
     map (\<lambda>(a, b). (a * real_of_int s1 + b * real_of_int s2) / real_of_int (s1 + s2)) (zip h1 h2)"

definition merge_regions :: "region \<Rightarrow> region \<Rightarrow> region" where
  "merge_regions r1 r2 =
     (let new_size = size_r r1 + size_r r2;
          rt = \<lparr> min_x = min (min_x r1) (min_x r2),
                 min_y = min (min_y r1) (min_y r2),
                 max_x = max (max_x r1) (max_x r2),
                 max_y = max (max_y r1) (max_y r2),
                 labels = labels r1 @ labels r2,
                 bbox_size = 0,
                 size_r = new_size,
                 hist_c = weighted_hist (hist_c r1) (size_r r1) (hist_c r2) (size_r r2),
                 hist_t = weighted_hist (hist_t r1) (size_r r1) (hist_t r2) (size_r r2),
                 og_min_x = min (og_min_x r1) (og_min_x r2),
                 og_min_y = min (og_min_y r1) (og_min_y r2),
                 og_max_x = max (og_max_x r1) (og_max_x r2),
                 og_max_y = max (og_max_y r1) (og_max_y r2) \<rparr>
      in rt\<lparr> bbox_size := (max_x rt - min_x rt) * (max_y rt - min_y rt) \<rparr>)"

text \<open>
  \<^verbatim>\<open>_expand_regions\<close>: the new table is keyed by the position of the region in the old
  one (\<^verbatim>\<open>enumerate\<close>), and \<^verbatim>\<open>bbox_size\<close> is computed from the coordinates of the old
  region \<^verbatim>\<open>r[1]\<close>.
\<close>

definition expand_region :: "int \<Rightarrow> int \<Rightarrow> int \<Rightarrow> region0 \<Rightarrow> region" where
  "expand_region border x_lim y_lim r =
     (let r_new = \<lparr> min_x = max 0 (min_x r - border),
                    min_y = max 0 (min_y r - border),
                    max_x = min x_lim (max_x r + border),
                    max_y = min y_lim (max_y r + border),
                    labels = labels r,
                    bbox_size = 0,
                    size_r = size_r r,
                    hist_c = hist_c r,
                    hist_t = hist_t r,
                    og_min_x = min_x r,
                    og_min_y = min_y r,
                    og_max_x = max_x r,
                    og_max_y = max_y r \<rparr>
      in r_new\<lparr> bbox_size := (max_x r - min_x r) * (max_y r - min_y r) \<rparr>)"

definition expand_regions :: "(nat \<times> region0) list \<Rightarrow> int \<Rightarrow> int \<Rightarrow> int \<Rightarrow> rtable" where
  "expand_regions regions border x_lim y_lim =
     map (\<lambda>(i, r). (i, expand_region border x_lim y_lim (snd r))) (enumerate 0 regions)"

subsection \<open>The neighbour test (\<^verbatim>\<open>intersect\<close> in \<^verbatim>\<open>_extract_neighbours\<close>)\<close>

definition intersect :: "region \<Rightarrow> region \<Rightarrow> bool" where
  "intersect a b \<longleftrightarrow>
     (min_x a < min_x b \<and> min_x b < max_x a \<and> min_y a < min_y b \<and> min_y b < max_y a)
   \<or> (min_x a < max_x b \<and> max_x b < max_x a \<and> min_y a < max_y b \<and> max_y b < max_y a)
   \<or> (min_x a < min_x b \<and> min_x b < max_x a \<and> min_y a < max_y b \<and> max_y b < max_y a)
   \<or> (min_x a < max_x b \<and> max_x b < max_x a \<and> min_y a < min_y b \<and> min_y b < max_y a)"

subsection \<open>Histograms (\<^verbatim>\<open>_calc_colour_hist\<close>, \<^verbatim>\<open>_calc_texture_hist\<close>)\<close>

text \<open>
  \<^verbatim>\<open>numpy.histogram(a, bins, (lo, hi))[0]\<close> is a function of the numpy library, outside
  the repository. It is modelled by its documented contract, over the reals: \<open>bins\<close> bins of
  equal width over \<open>[lo, hi]\<close>, each half-open but the last, which contains \<open>hi\<close>; values
  outside \<open>[lo, hi]\<close> are ignored; the result is the list of the counts.
\<close>

definition bin_index :: "nat \<Rightarrow> real \<Rightarrow> real \<Rightarrow> real \<Rightarrow> nat" where
  "bin_index bins lo hi v =
     (if v = hi then bins - 1 else nat \<lfloor>(v - lo) * real bins / (hi - lo)\<rfloor>)"

definition np_histogram :: "real list \<Rightarrow> nat \<Rightarrow> real \<Rightarrow> real \<Rightarrow> nat list" where
  "np_histogram a bins lo hi =
     map (\<lambda>b. length (filter (\<lambda>v. lo \<le> v \<and> v \<le> hi \<and> bin_index bins lo hi v = b) a))
       [0..<bins]"

text \<open>
  \<^verbatim>\<open>img\<close> is the list of the pixels of one region, each a list of channel values;
  \<^verbatim>\<open>img[:, c]\<close> is the list of the values of channel \<open>c\<close>. The division by \<^verbatim>\<open>len(img)\<close> is
  numpy's: on an empty sample it gives NaN and no exception, where the model gives 0, so the
  model stands for non-empty samples only (a region of the table has at least one pixel).
\<close>

definition channel :: "nat \<Rightarrow> real list list \<Rightarrow> real list" where
  "channel c img = map (\<lambda>p. p ! c) img"

definition calc_colour_hist :: "real list list \<Rightarrow> real list" where
  "calc_colour_hist img =
     map (\<lambda>n. real n / real (length img))
       (concat (map (\<lambda>c. np_histogram (channel c img) 25 0 255) [0, 1, 2]))"

definition calc_texture_hist :: "real list list \<Rightarrow> real list" where
  "calc_texture_hist img =
     map (\<lambda>n. real n / real (length img))
       (concat (map (\<lambda>c. np_histogram (channel c img) 10 0 1) [0, 1, 2]))"

subsection \<open>Extracting the regions of a segmentation (\<^verbatim>\<open>_extract_regions\<close>)\<close>

text \<open>
  The image that \<^verbatim>\<open>_extract_regions\<close> reads is given by its label channel \<open>im_mask\<close> (rows
  of labels, the output of the external segmentation), by \<open>hsv\<close> (the output of the external
  colour conversion, rows of pixels) and by \<open>tex_grad\<close> (the output of the external local
  binary patterns, rows of pixels); the three are aligned.

  Pass 1, for the pixel at column \<open>x\<close> of row \<open>y\<close> with label \<open>l\<close>.
\<close>

definition visit_pixel :: "nat \<Rightarrow> nat \<Rightarrow> nat \<Rightarrow> (nat \<times> box) list \<Rightarrow> (nat \<times> box) list" where
  "visit_pixel y x l R =
     (let b0 = (case map_of R l of
                  None \<Rightarrow> \<lparr> min_x = 65535, min_y = 65535, max_x = 0, max_y = 0,
                            labels = [l], bbox_size = 0 \<rparr>
                | Some b \<Rightarrow> b);
          b1 = (if min_x b0 > int x then b0\<lparr> min_x := int x \<rparr> else b0);
          b2 = (if min_y b1 > int y then b1\<lparr> min_y := int y \<rparr> else b1);
          b3 = (if max_x b2 < int x then b2\<lparr> max_x := int x \<rparr> else b2);
          b4 = (if max_y b3 < int y then b3\<lparr> max_y := int y \<rparr> else b3)
      in dict_set R l (b4\<lparr> bbox_size := (max_x b4 - min_x b4) * (max_y b4 - min_y b4) \<rparr>))"

definition count_positions :: "nat list list \<Rightarrow> (nat \<times> box) list" where
  "count_positions im_mask =
     fold (\<lambda>(y, row) R. fold (\<lambda>(x, l) R. visit_pixel y x l R) (enumerate 0 row) R)
       (enumerate 0 im_mask) []"

text \<open>\<^verbatim>\<open>arr[img[:, :, 3] == k]\<close>: the pixels of \<open>arr\<close> whose label is \<open>k\<close>, in row-major order.\<close>

definition masked_pixels :: "nat list list \<Rightarrow> 'a list list \<Rightarrow> nat \<Rightarrow> 'a list" where
  "masked_pixels im_mask arr k =
     concat (map (\<lambda>(mrow, arow). map snd (filter (\<lambda>(l, p). l = k) (zip mrow arow)))
       (zip im_mask arr))"

definition extract_regions ::
  "nat list list \<Rightarrow> real list list list \<Rightarrow> real list list list \<Rightarrow> (nat \<times> region0) list" where
  "extract_regions im_mask hsv tex_grad =
     map (\<lambda>(k, b).
            (k, \<lparr> min_x = min_x b, min_y = min_y b, max_x = max_x b, max_y = max_y b,
                  labels = labels b, bbox_size = bbox_size b,
                  size_r = int (length (masked_pixels im_mask hsv k)),
                  hist_c = calc_colour_hist (masked_pixels im_mask hsv k),
                  hist_t = calc_texture_hist (masked_pixels im_mask tex_grad k) \<rparr>))
       (count_positions im_mask)"

subsection \<open>The neighbour graph (\<^verbatim>\<open>_extract_neighbours\<close>)\<close>

text \<open>
  Every region \<open>a\<close> of the table is tested against the regions \<open>b\<close> after it, in this
  order of the arguments.
\<close>

fun neighbour_pairs :: "rtable \<Rightarrow> ((key \<times> region) \<times> (key \<times> region)) list" where
  "neighbour_pairs [] = []"
| "neighbour_pairs (a # bs) =
     map (\<lambda>b. (a, b)) (filter (\<lambda>b. intersect (snd a) (snd b)) bs) @ neighbour_pairs bs"

definition neighbours_mask :: "rtable \<Rightarrow> bool list" where
  "neighbours_mask R =
     fold (\<lambda>cur m.
             fold (\<lambda>cur2 m.
                     if intersect (snd (R ! cur)) (snd (R ! (cur + cur2 + 1)))
                     then m[cur := True, cur + cur2 + 1 := True] else m)
               [0..<length R - (cur + 1)] m)
       [0..<length R - 1] (replicate (length R) False)"

definition extract_neighbours ::
  "rtable \<Rightarrow> error + ((key \<times> region) \<times> (key \<times> region)) list \<times> bool list" where
  "extract_neighbours R =
     (let neighbours = neighbour_pairs R; m = neighbours_mask R
      in if list_ex (\<lambda>i. \<not> m ! i \<and> R ! i \<in> set (map snd neighbours)) [0..<length R]
         then Inl AssertionError else Inr (neighbours, m))"

subsection \<open>The initial similarities and the pruning of large regions\<close>

fun initial_similarities ::
  "((key \<times> region) \<times> (key \<times> region)) list \<Rightarrow> int \<Rightarrow> stable \<Rightarrow> error + stable" where
  "initial_similarities [] imsize S = Inr S"
| "initial_similarities (((ai, ar), (bi, br)) # ns) imsize S =
     (case calc_sim ar br imsize of
        Inl e \<Rightarrow> Inl e
      | Inr s \<Rightarrow> initial_similarities ns imsize (dict_set S (ai, bi) s))"

text \<open>\<^verbatim>\<open>t in k\<close> for a pair \<open>k\<close> of keys.\<close>

definition in_pair :: "key \<Rightarrow> key \<times> key \<Rightarrow> bool" where
  "in_pair t k \<longleftrightarrow> t = fst k \<or> t = snd k"

definition pop_keys :: "rtable \<Rightarrow> stable \<Rightarrow> int \<Rightarrow> (key \<times> key) list" where
  "pop_keys R S max_region_size =
     fold (\<lambda>(t, r) ktd.
             if bbox_size r > max_region_size
             then fold (\<lambda>(k, v) ktd.
                          if in_pair t k then (if k \<notin> set ktd then ktd @ [k] else ktd) else ktd)
                    S ktd
             else ktd)
       R []"

definition first_region_to_pop :: "bool \<Rightarrow> rtable \<Rightarrow> int \<Rightarrow> key list" where
  "first_region_to_pop region_pop R max_region_size =
     (if region_pop then map fst (filter (\<lambda>(t, r). bbox_size r > max_region_size) R) else [])"

definition pop_similarities :: "bool \<Rightarrow> rtable \<Rightarrow> stable \<Rightarrow> int \<Rightarrow> stable" where
  "pop_similarities region_pop R S max_region_size =
     (if region_pop then fold (\<lambda>k S. dict_del S k) (pop_keys R S max_region_size) S else S)"

subsection \<open>The merge loop (\<^verbatim>\<open>while S != {}\<close> in \<^verbatim>\<open>selective_search\<close>)\<close>

text \<open>
  \<^verbatim>\<open>sorted(S.items(), key=lambda i: i[1])[-1][0]\<close>: Python's sort is stable, as is
  \<open>sort_key\<close>, so among the entries of the greatest score the last one in the order of the
  dictionary is taken.
\<close>

definition select_edge :: "stable \<Rightarrow> key \<times> key" where
  "select_edge S = fst (last (sort_key snd S))"

definition key_to_delete :: "key \<Rightarrow> key \<Rightarrow> stable \<Rightarrow> (key \<times> key) list" where
  "key_to_delete i j S = map fst (filter (\<lambda>kv. in_pair i (fst kv) \<or> in_pair j (fst kv)) S)"

text \<open>
  The loop over \<^verbatim>\<open>[a for a in key_to_delete if a != (i, j)]\<close>; \<open>rt\<close> is \<^verbatim>\<open>R[t]\<close>, the
  region stored just before.
\<close>

fun add_edges ::
  "rtable \<Rightarrow> key \<Rightarrow> region \<Rightarrow> key \<Rightarrow> key \<Rightarrow> int \<Rightarrow> (key \<times> key) list \<Rightarrow> stable \<Rightarrow> error + stable" where
  "add_edges R t rt i j imsize [] S = Inr S"
| "add_edges R t rt i j imsize (k # ks) S =
     (let n = (if fst k = i \<or> fst k = j then snd k else fst k)
      in case dict_get R n of
           Inl e \<Rightarrow> Inl e
         | Inr rn \<Rightarrow>
             (case calc_sim rt rn imsize of
                Inl e \<Rightarrow> Inl e
              | Inr s \<Rightarrow> add_edges R t rt i j imsize ks (dict_set S (t, n) s)))"

text \<open>
  One iteration, on a non-empty \<open>S\<close>. \<^verbatim>\<open>max(R.keys())\<close> raises ValueError on an empty
  table, \<^verbatim>\<open>R[i]\<close> and \<^verbatim>\<open>R[j]\<close> raise KeyError on a key that is not in the table.
\<close>

definition new_key :: "rtable \<Rightarrow> key" where
  "new_key R = Max (set (map fst R)) + 1"

definition merge_step :: "int \<Rightarrow> int \<Rightarrow> rtable \<times> stable \<Rightarrow> error + rtable \<times> stable" where
  "merge_step imsize max_region_size st =
     (let R = fst st; S = snd st; i = fst (select_edge S); j = snd (select_edge S)
      in if R = [] then Inl ValueError
         else
           (case dict_get R i of
              Inl e \<Rightarrow> Inl e
            | Inr ri \<Rightarrow>
                (case dict_get R j of
                   Inl e \<Rightarrow> Inl e
                 | Inr rj \<Rightarrow>
                     (let t = new_key R;
                          rt = merge_regions ri rj;
                          R' = dict_set R t rt;
                          ktd = key_to_delete i j S;
                          S' = fold (\<lambda>k S. dict_del S k) ktd S
                      in if bbox_size rt > max_region_size then Inr (R', S')
                         else
                           (case add_edges R' t rt i j imsize
                                   (filter (\<lambda>a. a \<noteq> (i, j)) ktd) S' of
                              Inl e \<Rightarrow> Inl e
                            | Inr S'' \<Rightarrow> Inr (R', S''))))))"

lemma fold_dict_del:
  "fold (\<lambda>k S. dict_del S k) ks S = filter (\<lambda>kv. fst kv \<notin> set ks) S"
  by (induction ks arbitrary: S) (auto simp: dict_del_def intro: filter_cong)

lemma length_dict_set: "length (dict_set d k v) \<le> Suc (length d)"
  by (induction d) auto

lemma add_edges_length:
  "add_edges R t rt i j imsize ks S = Inr S' \<Longrightarrow> length S' \<le> length S + length ks"
proof (induction ks arbitrary: S)
  case Nil
  then show ?case by simp
next
  case (Cons k ks)
  let ?n = "if fst k = i \<or> fst k = j then snd k else fst k"
  from Cons.prems obtain rn s where
    rest: "add_edges R t rt i j imsize ks (dict_set S (t, ?n) s) = Inr S'"
    by (auto simp: Let_def split: sum.splits)
  have "length S' \<le> length (dict_set S (t, ?n) s) + length ks"
    by (rule Cons.IH [OF rest])
  also have "\<dots> \<le> Suc (length S) + length ks"
    using length_dict_set [of S "(t, ?n)" s] by simp
  finally show ?case by simp
qed

lemma select_edge_in_set:
  assumes "S \<noteq> []"
  shows "\<exists>v. (select_edge S, v) \<in> set S"
proof -
  have "sort_key snd S \<noteq> []" using assms by (metis length_0_conv length_sort)
  then have "last (sort_key snd S) \<in> set (sort_key snd S)" by (rule last_in_set)
  then have "last (sort_key snd S) \<in> set S" by simp
  then show ?thesis unfolding select_edge_def by (metis prod.collapse)
qed

lemma deleted_edges:
  "fold (\<lambda>k S. dict_del S k) (key_to_delete i j S) S
     = filter (\<lambda>kv. \<not> (in_pair i (fst kv) \<or> in_pair j (fst kv))) S"
proof -
  let ?P = "\<lambda>k. in_pair i k \<or> in_pair j k"
  have "fst kv \<notin> set (key_to_delete i j S) \<longleftrightarrow> \<not> ?P (fst kv)" if "kv \<in> set S" for kv
  proof
    assume "fst kv \<notin> set (key_to_delete i j S)"
    with that show "\<not> ?P (fst kv)" unfolding key_to_delete_def by force
  next
    assume "\<not> ?P (fst kv)"
    then show "fst kv \<notin> set (key_to_delete i j S)" unfolding key_to_delete_def by auto
  qed
  then have "\<forall>kv\<in>set S. (fst kv \<notin> set (key_to_delete i j S)) = (\<not> ?P (fst kv))" by blast
  then show ?thesis unfolding fold_dict_del by (simp cong: filter_cong)
qed

lemma selected_edge_deleted:
  assumes "S \<noteq> []"
  shows "select_edge S \<in> set (key_to_delete (fst (select_edge S)) (snd (select_edge S)) S)"
proof -
  from select_edge_in_set [OF assms] obtain v where "(select_edge S, v) \<in> set S" ..
  then show ?thesis
    unfolding key_to_delete_def by (force simp: in_pair_def)
qed

lemma merge_step_length:
  assumes "snd st \<noteq> []" and "merge_step imsize max_region_size st = Inr st'"
  shows "length (snd st') < length (snd st)"
proof -
  let ?S = "snd st"
  let ?i = "fst (select_edge ?S)" and ?j = "snd (select_edge ?S)"
  let ?ktd = "key_to_delete ?i ?j ?S"
  let ?S1 = "fold (\<lambda>k S. dict_del S k) ?ktd ?S"
  have ktd: "length ?ktd = length (filter (\<lambda>kv. in_pair ?i (fst kv) \<or> in_pair ?j (fst kv)) ?S)"
    by (simp add: key_to_delete_def)
  have "length ?S = length ?ktd + length ?S1"
    unfolding deleted_edges ktd by (rule sum_length_filter_compl [symmetric])
  moreover have "length (filter (\<lambda>a. a \<noteq> (?i, ?j)) ?ktd) < length ?ktd"
    using selected_edge_deleted [OF assms(1)] by (auto intro!: length_filter_less)
  moreover have "length (snd st') \<le> length ?S1 + length (filter (\<lambda>a. a \<noteq> (?i, ?j)) ?ktd)"
    using assms(2) unfolding merge_step_def
    by (auto simp: Let_def split: if_splits sum.splits dest: add_edges_length)
  ultimately show ?thesis by linarith
qed

function hierarchical_search ::
  "int \<Rightarrow> int \<Rightarrow> rtable \<times> stable \<Rightarrow> error + rtable \<times> stable" where
  "hierarchical_search imsize max_region_size st =
     (if snd st = [] then Inr st
      else (case merge_step imsize max_region_size st of
              Inl e \<Rightarrow> Inl e
            | Inr st' \<Rightarrow> hierarchical_search imsize max_region_size st'))"
  by pat_completeness auto
termination
  by (relation "measure (\<lambda>(imsize, max_region_size, st). length (snd st))")
     (auto dest: merge_step_length)

text \<open>
  The merges of a run of the loop, in order: the two keys selected and the key of the new
  region, for every iteration that completes. This is an observation of the loop, not a
  variable of the source.
\<close>

function merges :: "int \<Rightarrow> int \<Rightarrow> rtable \<times> stable \<Rightarrow> (key \<times> key \<times> key) list" where
  "merges imsize max_region_size st =
     (if snd st = [] then []
      else (case merge_step imsize max_region_size st of
              Inl e \<Rightarrow> []
            | Inr st' \<Rightarrow>
                (fst (select_edge (snd st)), snd (select_edge (snd st)), new_key (fst st))
                  # merges imsize max_region_size st'))"
  by pat_completeness auto
termination
  by (relation "measure (\<lambda>(imsize, max_region_size, st). length (snd st))")
     (auto dest: merge_step_length)

text \<open>
  The states of a run of the loop, in order: the state at the start and the state after
  every iteration that completes. Like \<open>merges\<close>, an observation of the loop.
\<close>

function run_states :: "int \<Rightarrow> int \<Rightarrow> rtable \<times> stable \<Rightarrow> (rtable \<times> stable) list" where
  "run_states imsize max_region_size st =
     st # (if snd st = [] then []
           else (case merge_step imsize max_region_size st of
                   Inl e \<Rightarrow> []
                 | Inr st' \<Rightarrow> run_states imsize max_region_size st'))"
  by pat_completeness auto
termination
  by (relation "measure (\<lambda>(imsize, max_region_size, st). length (snd st))")
     (auto dest: merge_step_length)

text \<open>Both keys of every similarity edge are keys of the table.\<close>

definition edges_in_table :: "rtable \<times> stable \<Rightarrow> bool" where
  "edges_in_table st \<longleftrightarrow>
     (\<forall>kv \<in> set (snd st). fst (fst kv) \<in> fst ` set (fst st) \<and> snd (fst kv) \<in> fst ` set (fst st))"

subsection \<open>The proposals and \<^verbatim>\<open>selective_search\<close>\<close>

text \<open>
  An element of \<^verbatim>\<open>regions\<close>: the keys \<^verbatim>\<open>rect\<close>, \<^verbatim>\<open>bbox_size\<close>, \<^verbatim>\<open>size\<close> and \<^verbatim>\<open>labels\<close>.
\<close>

record proposal =
  rect :: "int \<times> int \<times> int \<times> int"
  bbox_size_p :: int
  size_p :: int
  labels_p :: "nat list"

definition proposal_of :: "region \<Rightarrow> proposal" where
  "proposal_of r =
     \<lparr> rect = (min_x r, min_y r, max_x r - min_x r, max_y r - min_y r),
       bbox_size_p = bbox_size r,
       size_p = size_r r,
       labels_p = labels r \<rparr>"

definition assemble :: "rtable \<Rightarrow> key list \<Rightarrow> proposal list" where
  "assemble R pop = map (\<lambda>kr. proposal_of (snd kr)) (filter (\<lambda>kr. fst kr \<notin> set pop) R)"

text \<open>
  The state in which the merge loop starts, from the expanded table: the neighbours, their
  similarities, and the pruning under \<^verbatim>\<open>region_pop\<close>.
\<close>

definition initial_state ::
  "rtable \<Rightarrow> int \<Rightarrow> bool \<Rightarrow> int \<Rightarrow> error + rtable \<times> stable" where
  "initial_state R imsize region_pop max_region_size =
     (case extract_neighbours R of
        Inl e \<Rightarrow> Inl e
      | Inr nm \<Rightarrow>
          (case initial_similarities (fst nm) imsize [] of
             Inl e \<Rightarrow> Inl e
           | Inr S \<Rightarrow> Inr (R, pop_similarities region_pop R S max_region_size)))"

text \<open>
  \<^verbatim>\<open>selective_search\<close> from the extracted table \<open>R0\<close> on; the result is the pair of
  \<^verbatim>\<open>regions\<close> and \<^verbatim>\<open>og_regions\<close> (the latter always empty). The image \<^verbatim>\<open>img\<close>, which is
  returned as it came from the segmentation, is left out.
\<close>

definition search_regions ::
  "(nat \<times> region0) list \<Rightarrow> int \<Rightarrow> int \<Rightarrow> int \<Rightarrow> bool \<Rightarrow> int \<Rightarrow> int
     \<Rightarrow> error + proposal list \<times> proposal list" where
  "search_regions R0 imsize x_lim y_lim region_pop max_region_size border =
     (let R = expand_regions R0 border x_lim y_lim
      in case initial_state R imsize region_pop max_region_size of
           Inl e \<Rightarrow> Inl e
         | Inr st \<Rightarrow>
             (case hierarchical_search imsize max_region_size st of
                Inl e \<Rightarrow> Inl e
              | Inr st' \<Rightarrow>
                  Inr (assemble (fst st') (first_region_to_pop region_pop R max_region_size),
                       [])))"

text \<open>
  \<open>shape\<close> is \<^verbatim>\<open>im_orig.shape\<close>; \<^verbatim>\<open>im_orig.shape[2]\<close> raises IndexError on an array of
  fewer than three axes. The options \<^verbatim>\<open>max_region_size\<close> and \<^verbatim>\<open>border\<close> are ints, as their
  defaults 3000 and 10 are. \<^verbatim>\<open>_generate_segments\<close> appends the labels \<open>im_mask\<close> of the external
  segmentation to the image as a fourth channel and returns the array, never \<^verbatim>\<open>None\<close>, so
  the branch \<^verbatim>\<open>if img is None\<close> is not taken. The parameters \<^verbatim>\<open>scale\<close>, \<^verbatim>\<open>sigma\<close> and
  \<^verbatim>\<open>min_size\<close> only reach the external segmentation, whose output \<open>im_mask\<close> stands for
  them.
\<close>

definition selective_search ::
  "nat list \<Rightarrow> nat list list \<Rightarrow> real list list list \<Rightarrow> real list list list
     \<Rightarrow> bool \<Rightarrow> int \<Rightarrow> int \<Rightarrow> error + proposal list \<times> proposal list" where
  "selective_search shape im_mask hsv tex_grad region_pop max_region_size border =
     (if length shape < 3 then Inl IndexError
      else if shape ! 2 \<noteq> 3 then Inl AssertionError
      else search_regions (extract_regions im_mask hsv tex_grad)
             (int (shape ! 0) * int (shape ! 1)) (int (shape ! 1)) (int (shape ! 0))
             region_pop max_region_size border)"

subsection \<open>The merge hierarchy\<close>

text \<open>
  A merge tree: its leaves are regions of the initial table, and every inner node stands
  for the region that \<^verbatim>\<open>_merge_regions\<close> builds from the regions of its two children.
\<close>

datatype mtree = Leaf region | Node mtree mtree

fun region_of :: "mtree \<Rightarrow> region" where
  "region_of (Leaf r) = r"
| "region_of (Node a b) = merge_regions (region_of a) (region_of b)"



fun subtrees :: "mtree \<Rightarrow> mtree list" where
  "subtrees (Leaf r) = [Leaf r]"
| "subtrees (Node a b) = Node a b # subtrees a @ subtrees b"

subsection \<open>A small image\<close>

text \<open>
  An image of 5 by 5 pixels in three segments: a ring of 16 pixels (label 0), a ring of 8
  pixels inside it (label 1) and the pixel in the middle (label 2). The image is black (hue,
  saturation and value 0) and flat, so that every local binary pattern is 255.
\<close>

definition img5_mask :: "nat list list" where
  "img5_mask = [[0, 0, 0, 0, 0], [0, 1, 1, 1, 0], [0, 1, 2, 1, 0], [0, 1, 1, 1, 0], [0, 0, 0, 0, 0]]"

definition img5_hsv :: "real list list list" where
  "img5_hsv = replicate 5 (replicate 5 [0, 0, 0])"

definition img5_tex :: "real list list list" where
  "img5_tex = replicate 5 (replicate 5 [255, 255, 255, 0])"

definition img5_hist_c :: "real list" where
  "img5_hist_c = concat (replicate 3 (1 # replicate 24 0))"

definition img5_hist_t :: "real list" where
  "img5_hist_t = replicate 30 0"

definition img5_region :: "int \<Rightarrow> int \<Rightarrow> int \<Rightarrow> int \<Rightarrow> nat list \<Rightarrow> int \<Rightarrow> int \<Rightarrow> region" where
  "img5_region x0 y0 x1 y1 ls bs sz =
     \<lparr> min_x = x0, min_y = y0, max_x = x1, max_y = y1, labels = ls, bbox_size = bs,
       size_r = sz, hist_c = img5_hist_c, hist_t = img5_hist_t,
       og_min_x = x0, og_min_y = y0, og_max_x = x1, og_max_y = y1 \<rparr>"

text \<open>The table that \<^verbatim>\<open>_extract_regions\<close> builds from the image.\<close>

definition img5_region0 :: "int \<Rightarrow> int \<Rightarrow> int \<Rightarrow> int \<Rightarrow> nat list \<Rightarrow> int \<Rightarrow> int \<Rightarrow> region0" where
  "img5_region0 x0 y0 x1 y1 ls bs sz =
     \<lparr> min_x = x0, min_y = y0, max_x = x1, max_y = y1, labels = ls, bbox_size = bs,
       size_r = sz, hist_c = img5_hist_c, hist_t = img5_hist_t \<rparr>"

definition img5_table0 :: "(nat \<times> region0) list" where
  "img5_table0 =
     [(0, img5_region0 0 0 4 4 [0] 16 16),
      (1, img5_region0 1 1 3 3 [1] 4 8),
      (2, img5_region0 2 2 2 2 [2] 0 1)]"

text \<open>The expanded table of the image for \<^verbatim>\<open>border = 0\<close>, and the two merged regions.\<close>

definition img5_table :: rtable where
  "img5_table =
     [(0, img5_region 0 0 4 4 [0] 16 16),
      (1, img5_region 1 1 3 3 [1] 4 8),
      (2, img5_region 2 2 2 2 [2] 0 1)]"

definition img5_r3 :: region where
  "img5_r3 = img5_region 1 1 3 3 [1, 2] 4 9"

definition img5_r4 :: region where
  "img5_r4 = img5_region 0 0 4 4 [1, 2, 0] 16 25"

definition img5_state :: "rtable \<times> stable" where
  "img5_state = (img5_table, [((0, 1), 109 / 25), ((0, 2), 109 / 25), ((1, 2), 121 / 25)])"

subsection \<open>A second small image\<close>

text \<open>
  An image of 7 by 5 pixels in four segments: the background of 25 pixels (label 0), a ring
  of 8 pixels (label 1) around one pixel (label 2), and one more pixel (label 3) apart from
  the ring. Like the first image it is black and flat, so that the histograms of its regions
  are those of the first image.
\<close>

definition img7_mask :: "nat list list" where
  "img7_mask =
     [[0, 0, 0, 0, 0, 0, 0],
      [0, 1, 1, 1, 0, 0, 0],
      [0, 1, 2, 1, 0, 0, 0],
      [0, 1, 1, 1, 0, 3, 0],
      [0, 0, 0, 0, 0, 0, 0]]"

definition img7_hsv :: "real list list list" where
  "img7_hsv = replicate 5 (replicate 7 [0, 0, 0])"

definition img7_tex :: "real list list list" where
  "img7_tex = replicate 5 (replicate 7 [255, 255, 255, 0])"

definition img7_table0 :: "(nat \<times> region0) list" where
  "img7_table0 =
     [(0, img5_region0 0 0 6 4 [0] 24 25),
      (1, img5_region0 1 1 3 3 [1] 4 8),
      (2, img5_region0 2 2 2 2 [2] 0 1),
      (3, img5_region0 5 3 5 3 [3] 0 1)]"

text \<open>
  The expanded table for \<^verbatim>\<open>border = 0\<close>, the state in which the loop starts, and the
  two merged regions of the run with \<^verbatim>\<open>max_region_size = 3\<close>.
\<close>

definition img7_table :: rtable where
  "img7_table =
     [(0, img5_region 0 0 6 4 [0] 24 25),
      (1, img5_region 1 1 3 3 [1] 4 8),
      (2, img5_region 2 2 2 2 [2] 0 1),
      (3, img5_region 5 3 5 3 [3] 0 1)]"

definition img7_state :: "rtable \<times> stable" where
  "img7_state =
     (img7_table,
      [((0, 1), 151 / 35), ((0, 2), 151 / 35), ((0, 3), 151 / 35), ((1, 2), 171 / 35)])"

definition img7_r4 :: region where
  "img7_r4 = img5_region 1 1 3 3 [1, 2] 4 9"

definition img7_r5 :: region where
  "img7_r5 = img5_region 0 0 6 4 [0, 3] 24 26"

definition img7_state1 :: "rtable \<times> stable" where
  "img7_state1 = (img7_table @ [(4, img7_r4)], [((0, 3), 151 / 35)])"

section \<open>Properties\<close>

declare hierarchical_search.simps [simp del] merges.simps [simp del] run_states.simps [simp del]

subsection \<open>The table only grows\<close>

lemma new_key_fresh: "new_key R \<notin> fst ` set R"
proof
  assume "new_key R \<in> fst ` set R"
  then have "new_key R \<le> Max (set (map fst R))" by (intro Max_ge) auto
  then show False by (simp add: new_key_def)
qed

lemma dict_set_fresh: "k \<notin> fst ` set d \<Longrightarrow> dict_set d k v = d @ [(k, v)]"
  by (induction d) auto

lemma dict_get_Inr: "dict_get d k = Inr v \<longleftrightarrow> map_of d k = Some v"
  by (simp add: dict_get_def split: option.splits)

lemma map_of_append_left: "map_of R k = Some v \<Longrightarrow> map_of (R @ X) k = Some v"
  by (simp add: map_add_Some_iff)

lemma map_of_append_fresh: "k \<notin> fst ` set R \<Longrightarrow> map_of (R @ [(k, v)]) k = Some v"
  by (simp add: map_add_Some_iff map_of_eq_None_iff)

lemma merge_step_table:
  assumes "merge_step imsize max_region_size st = Inr st'"
  shows "\<exists>ri rj. map_of (fst st) (fst (select_edge (snd st))) = Some ri
           \<and> map_of (fst st) (snd (select_edge (snd st))) = Some rj
           \<and> fst st' = fst st @ [(new_key (fst st), merge_regions ri rj)]"
  using assms unfolding merge_step_def
  by (auto simp: Let_def dict_get_Inr dict_set_fresh [OF new_key_fresh]
           split: if_splits sum.splits)

lemma hierarchical_search_extends:
  "hierarchical_search imsize max_region_size st = Inr st'
   \<Longrightarrow> \<exists>X. fst st' = fst st @ X
         \<and> map fst X = map (\<lambda>m. snd (snd m)) (merges imsize max_region_size st)"
proof (induction imsize max_region_size st rule: hierarchical_search.induct)
  case (1 imsize max_region_size st)
  show ?case
  proof (cases "snd st = []")
    case True
    with "1.prems" have "st' = st"
      by (simp add: hierarchical_search.simps [of _ _ st])
    with True show ?thesis by (simp add: merges.simps [of _ _ st])
  next
    case False
    with "1.prems" obtain st1 where
      step: "merge_step imsize max_region_size st = Inr st1" and
      rest: "hierarchical_search imsize max_region_size st1 = Inr st'"
      by (auto simp: hierarchical_search.simps [of _ _ st] split: sum.splits)
    from "1.IH" [OF False step rest] obtain X where
      X: "fst st' = fst st1 @ X"
         "map fst X = map (\<lambda>m. snd (snd m)) (merges imsize max_region_size st1)"
      by blast
    from merge_step_table [OF step] obtain r where
      r: "fst st1 = fst st @ [(new_key (fst st), r)]" by blast
    have "fst st' = fst st @ ((new_key (fst st), r) # X)" using X(1) r by simp
    moreover have "map fst ((new_key (fst st), r) # X)
                   = map (\<lambda>m. snd (snd m)) (merges imsize max_region_size st)"
      using X(2) False step by (simp add: merges.simps [of _ _ st])
    ultimately show ?thesis by blast
  qed
qed

lemma run_merge:
  "hierarchical_search imsize max_region_size st = Inr st'
   \<Longrightarrow> (i, j, t) \<in> set (merges imsize max_region_size st)
   \<Longrightarrow> \<exists>ri rj. map_of (fst st') i = Some ri \<and> map_of (fst st') j = Some rj
         \<and> map_of (fst st') t = Some (merge_regions ri rj)"
proof (induction imsize max_region_size st rule: hierarchical_search.induct)
  case (1 imsize max_region_size st)
  show ?case
  proof (cases "snd st = []")
    case True
    with "1.prems" show ?thesis by (simp add: merges.simps [of _ _ st])
  next
    case False
    with "1.prems" obtain st1 where
      step: "merge_step imsize max_region_size st = Inr st1" and
      rest: "hierarchical_search imsize max_region_size st1 = Inr st'"
      by (auto simp: hierarchical_search.simps [of _ _ st] split: sum.splits)
    let ?i = "fst (select_edge (snd st))" and ?j = "snd (select_edge (snd st))"
    from "1.prems"(2) False step
    consider "(i, j, t) = (?i, ?j, new_key (fst st))"
      | "(i, j, t) \<in> set (merges imsize max_region_size st1)"
      by (auto simp: merges.simps [of _ _ st])
    then show ?thesis
    proof cases
      case 1
      from merge_step_table [OF step] obtain ri rj where
        ri: "map_of (fst st) ?i = Some ri" and rj: "map_of (fst st) ?j = Some rj" and
        tab: "fst st1 = fst st @ [(new_key (fst st), merge_regions ri rj)]"
        by blast
      from hierarchical_search_extends [OF rest] obtain X where X: "fst st' = fst st1 @ X"
        by blast
      have "map_of (fst st1) (new_key (fst st)) = Some (merge_regions ri rj)"
        unfolding tab by (rule map_of_append_fresh [OF new_key_fresh])
      then have "map_of (fst st') (new_key (fst st)) = Some (merge_regions ri rj)"
        unfolding X by (rule map_of_append_left)
      moreover have "map_of (fst st') ?i = Some ri"
        unfolding X tab by (intro map_of_append_left ri)
      moreover have "map_of (fst st') ?j = Some rj"
        unfolding X tab by (intro map_of_append_left rj)
      ultimately show ?thesis using 1 by simp
    next
      case 2
      then show ?thesis by (rule "1.IH" [OF False step rest])
    qed
  qed
qed

subsection \<open>The run on the small image\<close>

lemma img5_extract: "extract_regions img5_mask img5_hsv img5_tex = img5_table0"
  by code_simp

lemma img5_expand: "expand_regions img5_table0 0 5 5 = img5_table"
  by code_simp

lemma img5_step:
  "merge_step 25 3000 img5_state = Inr (img5_table @ [(3, img5_r3)], [((3, 0), 109 / 25)])"
  by code_simp

lemma img5_initial: "initial_state img5_table 25 False 3000 = Inr img5_state"
  by code_simp

lemma img5_run:
  "hierarchical_search 25 3000 img5_state = Inr (img5_table @ [(3, img5_r3), (4, img5_r4)], [])"
  by code_simp

lemma img5_merges: "merges 25 3000 img5_state = [(1, 2, 3), (3, 0, 4)]"
  by code_simp

lemma img5_search:
  "search_regions img5_table0 25 5 5 False 3000 0
     = Inr (map proposal_of
              [img5_region 0 0 4 4 [0] 16 16, img5_region 1 1 3 3 [1] 4 8,
               img5_region 2 2 2 2 [2] 0 1, img5_r3, img5_r4], [])"
  unfolding search_regions_def img5_expand Let_def img5_initial sum.case img5_run
  by (simp add: assemble_def first_region_to_pop_def img5_table_def)

lemma img5_lookups:
  "map_of (img5_table @ [(3, img5_r3), (4, img5_r4)]) 0 = Some (img5_region 0 0 4 4 [0] 16 16)"
  "map_of (img5_table @ [(3, img5_r3), (4, img5_r4)]) 1 = Some (img5_region 1 1 3 3 [1] 4 8)"
  "map_of (img5_table @ [(3, img5_r3), (4, img5_r4)]) 2 = Some (img5_region 2 2 2 2 [2] 0 1)"
  "map_of (img5_table @ [(3, img5_r3), (4, img5_r4)]) 3 = Some img5_r3"
  "map_of (img5_table @ [(3, img5_r3), (4, img5_r4)]) 4 = Some img5_r4"
  by (simp_all add: img5_table_def)

subsection \<open>Merging two regions\<close>


lemma merge_regions_labels: "labels (merge_regions r1 r2) = labels r1 @ labels r2"
  by (simp add: merge_regions_def Let_def)



lemma subtree_labels:
  "s \<in> set (subtrees tr) \<Longrightarrow> set (labels (region_of s)) \<subseteq> set (labels (region_of tr))"
  by (induction tr) (auto simp: merge_regions_labels)



text \<open>
  C4. Merging unites the labels: the labels of the region that \<^verbatim>\<open>_merge_regions\<close> builds
  are, as a set, the union of the labels of its two parents; this holds for every merge of a
  run of the loop that completes; and in a merge tree the labels of the region of a subtree
  are among the labels of the region of the tree, so that the set of labels never shrinks
  on the way up the hierarchy.
\<close>

theorem merge_labels_union:
  "set (labels (merge_regions r1 r2)) = set (labels r1) \<union> set (labels r2)
   \<and> (hierarchical_search imsize max_region_size st = Inr st'
        \<longrightarrow> (i, j, t) \<in> set (merges imsize max_region_size st)
        \<longrightarrow> (\<exists>ri rj rt. map_of (fst st') i = Some ri \<and> map_of (fst st') j = Some rj
               \<and> map_of (fst st') t = Some rt
               \<and> set (labels rt) = set (labels ri) \<union> set (labels rj)))
   \<and> (\<forall>s \<in> set (subtrees tr). set (labels (region_of s)) \<subseteq> set (labels (region_of tr)))"
proof (intro conjI impI ballI)
  show "set (labels (merge_regions r1 r2)) = set (labels r1) \<union> set (labels r2)"
    by (simp add: merge_regions_labels)
next
  assume "hierarchical_search imsize max_region_size st = Inr st'"
    and "(i, j, t) \<in> set (merges imsize max_region_size st)"
  from run_merge [OF this] obtain ri rj where
    "map_of (fst st') i = Some ri" "map_of (fst st') j = Some rj"
    "map_of (fst st') t = Some (merge_regions ri rj)"
    by blast
  then show "\<exists>ri rj rt. map_of (fst st') i = Some ri \<and> map_of (fst st') j = Some rj
               \<and> map_of (fst st') t = Some rt
               \<and> set (labels rt) = set (labels ri) \<union> set (labels rj)"
    by (simp add: merge_regions_labels)
next
  fix s assume "s \<in> set (subtrees tr)"
  then show "set (labels (region_of s)) \<subseteq> set (labels (region_of tr))"
    by (rule subtree_labels)
qed

theorem merge_labels_union_witness:
  "hierarchical_search 25 3000 img5_state
     = Inr (img5_table @ [(3, img5_r3), (4, img5_r4)], [])
   \<and> (1, 2, 3) \<in> set (merges 25 3000 img5_state)
   \<and> set (labels img5_r3) = {1, 2}
   \<and> Leaf (img5_region 2 2 2 2 [2] 0 1)
       \<in> set (subtrees (Node (Leaf (img5_region 1 1 3 3 [1] 4 8))
                              (Leaf (img5_region 2 2 2 2 [2] 0 1))))
   \<and> {2} \<subseteq> set (labels (merge_regions (img5_region 1 1 3 3 [1] 4 8)
                                          (img5_region 2 2 2 2 [2] 0 1)))"
  using merge_labels_union
    [of "img5_region 1 1 3 3 [1] 4 8" "img5_region 2 2 2 2 [2] 0 1" 25 3000 img5_state
        "(img5_table @ [(3, img5_r3), (4, img5_r4)], [])" 1 2 3
        "Node (Leaf (img5_region 1 1 3 3 [1] 4 8)) (Leaf (img5_region 2 2 2 2 [2] 0 1))"]
  by (simp add: img5_run img5_merges img5_lookups img5_region_def img5_r3_def)

subsection \<open>The neighbour test\<close>

text \<open>
  C7, as stated: the test gives the same result for \<open>(a, b)\<close> and for \<open>(b, a)\<close>. It does
  not. The outer ring of the small image has the bounding box \<open>(0, 0, 4, 4)\<close> and the inner
  ring \<open>(1, 1, 3, 3)\<close>; a corner of the inner box lies strictly inside the outer box, and
  no corner of the outer box lies inside the inner one.
\<close>

theorem intersect_symmetric_counterexample:
  "min_x (img5_region 0 0 4 4 [0] 16 16) \<le> max_x (img5_region 0 0 4 4 [0] 16 16)
   \<and> min_y (img5_region 0 0 4 4 [0] 16 16) \<le> max_y (img5_region 0 0 4 4 [0] 16 16)
   \<and> min_x (img5_region 1 1 3 3 [1] 4 8) \<le> max_x (img5_region 1 1 3 3 [1] 4 8)
   \<and> min_y (img5_region 1 1 3 3 [1] 4 8) \<le> max_y (img5_region 1 1 3 3 [1] 4 8)
   \<and> intersect (img5_region 0 0 4 4 [0] 16 16) (img5_region 1 1 3 3 [1] 4 8)
   \<and> \<not> intersect (img5_region 1 1 3 3 [1] 4 8) (img5_region 0 0 4 4 [0] 16 16)"
  by (simp add: intersect_def img5_region_def)

text \<open>
  C7, amended: \<open>intersect a b\<close> holds exactly when one of the four corners of the box of
  \<open>b\<close> lies strictly inside the box of \<open>a\<close>; and the test gives the same result in both
  orders whenever, in \<open>x\<close> and in \<open>y\<close>, the extent of neither box lies within the extent
  of the other.
\<close>

theorem intersect_corner_test:
  "(intersect a b \<longleftrightarrow>
      (\<exists>x \<in> {min_x b, max_x b}. \<exists>y \<in> {min_y b, max_y b}.
         min_x a < x \<and> x < max_x a \<and> min_y a < y \<and> y < max_y a))
   \<and> (\<not> (min_x a \<le> min_x b \<and> max_x b \<le> max_x a)
        \<and> \<not> (min_x b \<le> min_x a \<and> max_x a \<le> max_x b)
        \<and> \<not> (min_y a \<le> min_y b \<and> max_y b \<le> max_y a)
        \<and> \<not> (min_y b \<le> min_y a \<and> max_y a \<le> max_y b)
        \<longrightarrow> intersect a b = intersect b a)"
proof (intro conjI impI)
  show "intersect a b \<longleftrightarrow>
      (\<exists>x \<in> {min_x b, max_x b}. \<exists>y \<in> {min_y b, max_y b}.
         min_x a < x \<and> x < max_x a \<and> min_y a < y \<and> y < max_y a)"
    unfolding intersect_def by auto
next
  assume "\<not> (min_x a \<le> min_x b \<and> max_x b \<le> max_x a)
        \<and> \<not> (min_x b \<le> min_x a \<and> max_x a \<le> max_x b)
        \<and> \<not> (min_y a \<le> min_y b \<and> max_y b \<le> max_y a)
        \<and> \<not> (min_y b \<le> min_y a \<and> max_y a \<le> max_y b)"
  then show "intersect a b = intersect b a"
    unfolding intersect_def by linarith
qed

theorem intersect_corner_test_witness:
  "\<not> (min_x (img5_region 0 0 4 4 [0] 16 16) \<le> min_x (img5_region 2 2 6 6 [1] 16 25)
       \<and> max_x (img5_region 2 2 6 6 [1] 16 25) \<le> max_x (img5_region 0 0 4 4 [0] 16 16))
   \<and> \<not> (min_x (img5_region 2 2 6 6 [1] 16 25) \<le> min_x (img5_region 0 0 4 4 [0] 16 16)
       \<and> max_x (img5_region 0 0 4 4 [0] 16 16) \<le> max_x (img5_region 2 2 6 6 [1] 16 25))
   \<and> \<not> (min_y (img5_region 0 0 4 4 [0] 16 16) \<le> min_y (img5_region 2 2 6 6 [1] 16 25)
       \<and> max_y (img5_region 2 2 6 6 [1] 16 25) \<le> max_y (img5_region 0 0 4 4 [0] 16 16))
   \<and> \<not> (min_y (img5_region 2 2 6 6 [1] 16 25) \<le> min_y (img5_region 0 0 4 4 [0] 16 16)
       \<and> max_y (img5_region 0 0 4 4 [0] 16 16) \<le> max_y (img5_region 2 2 6 6 [1] 16 25))
   \<and> intersect (img5_region 0 0 4 4 [0] 16 16) (img5_region 2 2 6 6 [1] 16 25)
   \<and> intersect (img5_region 2 2 6 6 [1] 16 25) (img5_region 0 0 4 4 [0] 16 16)"
proof -
  let ?a = "img5_region 0 0 4 4 [0] 16 16" and ?b = "img5_region 2 2 6 6 [1] 16 25"
  have apart:
    "\<not> (min_x ?a \<le> min_x ?b \<and> max_x ?b \<le> max_x ?a)
     \<and> \<not> (min_x ?b \<le> min_x ?a \<and> max_x ?a \<le> max_x ?b)
     \<and> \<not> (min_y ?a \<le> min_y ?b \<and> max_y ?b \<le> max_y ?a)
     \<and> \<not> (min_y ?b \<le> min_y ?a \<and> max_y ?a \<le> max_y ?b)"
    by (simp add: img5_region_def)
  have ab: "intersect ?a ?b"
    by (simp add: intersect_def img5_region_def)
  from intersect_corner_test [of ?a ?b] apart have "intersect ?a ?b = intersect ?b ?a"
    by blast
  with ab apart show ?thesis by blast
qed

subsection \<open>The area of the bounding box\<close>

text \<open>
  C2. \<^verbatim>\<open>_merge_regions\<close> computes \<^verbatim>\<open>bbox_size\<close> from the coordinates of the merged
  region, as the claim says. \<^verbatim>\<open>_expand_regions\<close> computes it from the coordinates of the
  region before the expansion: on the small image with \<^verbatim>\<open>border = 1\<close> the three expanded
  boxes have the areas 25, 16 and 4, and \<^verbatim>\<open>bbox_size\<close> is 16, 4 and 0.
\<close>

theorem expand_regions_bbox_size:
  "bbox_size (merge_regions r1 r2)
     = (max_x (merge_regions r1 r2) - min_x (merge_regions r1 r2))
       * (max_y (merge_regions r1 r2) - min_y (merge_regions r1 r2))
   \<and> map (\<lambda>kr. (fst kr, bbox_size (snd kr),
                 (max_x (snd kr) - min_x (snd kr)) * (max_y (snd kr) - min_y (snd kr))))
        (expand_regions (extract_regions img5_mask img5_hsv img5_tex) 1 5 5)
     = [(0, 16, 25), (1, 4, 16), (2, 0, 4)]"
proof
  show "bbox_size (merge_regions r1 r2)
     = (max_x (merge_regions r1 r2) - min_x (merge_regions r1 r2))
       * (max_y (merge_regions r1 r2) - min_y (merge_regions r1 r2))"
    by (simp add: merge_regions_def Let_def)
next
  have "map (\<lambda>kr. (fst kr, bbox_size (snd kr),
                 (max_x (snd kr) - min_x (snd kr)) * (max_y (snd kr) - min_y (snd kr))))
        (expand_regions img5_table0 1 5 5)
     = [(0, 16, 25), (1, 4, 16), (2, 0, 4)]"
    by code_simp
  then show "map (\<lambda>kr. (fst kr, bbox_size (snd kr),
                 (max_x (snd kr) - min_x (snd kr)) * (max_y (snd kr) - min_y (snd kr))))
        (expand_regions (extract_regions img5_mask img5_hsv img5_tex) 1 5 5)
     = [(0, 16, 25), (1, 4, 16), (2, 0, 4)]"
    by (simp only: img5_extract)
qed

subsection \<open>Termination of the merge loop\<close>

lemma length_dict_set_ge: "length d \<le> length (dict_set d k v)"
  by (induction d) auto

lemma add_edges_length_ge:
  "add_edges R t rt i j imsize ks S = Inr S' \<Longrightarrow> length S \<le> length S'"
proof (induction ks arbitrary: S)
  case Nil
  then show ?case by simp
next
  case (Cons k ks)
  let ?n = "if fst k = i \<or> fst k = j then snd k else fst k"
  from Cons.prems obtain s where
    rest: "add_edges R t rt i j imsize ks (dict_set S (t, ?n) s) = Inr S'"
    by (auto simp: Let_def split: sum.splits)
  from Cons.IH [OF rest] length_dict_set_ge [of S "(t, ?n)" s] show ?case by linarith
qed

lemma merge_step_inserted:
  assumes "snd st \<noteq> []" and "merge_step imsize max_region_size st = Inr st'"
  defines "ktd \<equiv> key_to_delete (fst (select_edge (snd st))) (snd (select_edge (snd st))) (snd st)"
  defines "S1 \<equiv> fold (\<lambda>k S. dict_del S k) ktd (snd st)"
  shows "length S1 + length ktd = length (snd st)"
    and "length S1 \<le> length (snd st')"
    and "length (snd st') - length S1 < length ktd"
proof -
  let ?i = "fst (select_edge (snd st))" and ?j = "snd (select_edge (snd st))"
  have "length ktd = length (filter (\<lambda>kv. in_pair ?i (fst kv) \<or> in_pair ?j (fst kv)) (snd st))"
    by (simp add: ktd_def key_to_delete_def)
  then show total: "length S1 + length ktd = length (snd st)"
    unfolding S1_def ktd_def deleted_edges
    using sum_length_filter_compl
      [of "\<lambda>kv. in_pair ?i (fst kv) \<or> in_pair ?j (fst kv)" "snd st"]
    by simp
  show lower: "length S1 \<le> length (snd st')"
    using assms(2) unfolding merge_step_def S1_def ktd_def
    by (auto simp: Let_def split: if_splits sum.splits dest: add_edges_length_ge)
  from merge_step_length [OF assms(1,2)] total lower
  show "length (snd st') - length S1 < length ktd" by linarith
qed

lemma merges_length: "length (merges imsize max_region_size st) \<le> length (snd st)"
proof (induction imsize max_region_size st rule: merges.induct)
  case (1 imsize max_region_size st)
  show ?case
  proof (cases "snd st = []")
    case True
    then show ?thesis by (simp add: merges.simps [of _ _ st])
  next
    case False
    show ?thesis
    proof (cases "merge_step imsize max_region_size st")
      case (Inl e)
      with False show ?thesis by (simp add: merges.simps [of _ _ st])
    next
      case (Inr st1)
      from "1.IH" [OF False Inr] merge_step_length [OF False Inr] False Inr
      show ?thesis by (simp add: merges.simps [of _ _ st])
    qed
  qed
qed

lemma hierarchical_search_final:
  "hierarchical_search imsize max_region_size st = Inr fin \<Longrightarrow> snd fin = []"
proof (induction imsize max_region_size st rule: hierarchical_search.induct)
  case (1 imsize max_region_size st)
  show ?case
  proof (cases "snd st = []")
    case True
    with "1.prems" show ?thesis by (simp add: hierarchical_search.simps [of _ _ st])
  next
    case False
    with "1.prems" obtain st1 where
      "merge_step imsize max_region_size st = Inr st1"
      "hierarchical_search imsize max_region_size st1 = Inr fin"
      by (auto simp: hierarchical_search.simps [of _ _ st] split: sum.splits)
    then show ?thesis by (rule "1.IH" [OF False])
  qed
qed

text \<open>
  C5. An iteration of the merge loop that completes leaves fewer similarity edges than it
  found: the edges that touch the two selected regions are removed, and fewer edges are
  inserted for the merged region than were removed. So the loop ends, after at most as many
  iterations as there were edges at the start, and when it returns the edge set is empty.
  (The loop is the function \<open>hierarchical_search\<close>, which is total: its recursion is
  well-founded by the number of edges.)
\<close>

theorem merge_loop_terminates:
  "(snd st \<noteq> [] \<and> merge_step imsize max_region_size st = Inr st'
      \<longrightarrow> length (snd st') < length (snd st)
          \<and> length (fold (\<lambda>k S. dict_del S k)
                 (key_to_delete (fst (select_edge (snd st))) (snd (select_edge (snd st)))
                    (snd st)) (snd st))
              + length (key_to_delete (fst (select_edge (snd st)))
                          (snd (select_edge (snd st))) (snd st))
              = length (snd st)
          \<and> length (fold (\<lambda>k S. dict_del S k)
                 (key_to_delete (fst (select_edge (snd st))) (snd (select_edge (snd st)))
                    (snd st)) (snd st))
              \<le> length (snd st')
          \<and> length (snd st')
              - length (fold (\<lambda>k S. dict_del S k)
                  (key_to_delete (fst (select_edge (snd st))) (snd (select_edge (snd st)))
                     (snd st)) (snd st))
              < length (key_to_delete (fst (select_edge (snd st)))
                          (snd (select_edge (snd st))) (snd st)))
   \<and> length (merges imsize max_region_size st) \<le> length (snd st)
   \<and> (hierarchical_search imsize max_region_size st = Inr fin \<longrightarrow> snd fin = [])"
  using merge_step_length [of st imsize max_region_size st']
    merge_step_inserted [of st imsize max_region_size st']
    merges_length [of imsize max_region_size st]
    hierarchical_search_final [of imsize max_region_size st fin]
  by blast

theorem merge_loop_terminates_witness:
  "snd img5_state \<noteq> []
   \<and> merge_step 25 3000 img5_state
       = Inr (img5_table @ [(3, img5_r3)], [((3, 0), 109 / 25)])
   \<and> length (snd ((img5_table @ [(3, img5_r3)], [((3, 0), 109 / 25)]) :: rtable \<times> stable))
       < length (snd img5_state)
   \<and> length (merges 25 3000 img5_state) \<le> length (snd img5_state)
   \<and> hierarchical_search 25 3000 img5_state
       = Inr (img5_table @ [(3, img5_r3), (4, img5_r4)], [])
   \<and> snd ((img5_table @ [(3, img5_r3), (4, img5_r4)], []) :: rtable \<times> stable) = []"
proof -
  let ?st1 = "(img5_table @ [(3, img5_r3)], [((3, 0), 109 / 25)]) :: rtable \<times> stable"
  let ?fin = "(img5_table @ [(3, img5_r3), (4, img5_r4)], []) :: rtable \<times> stable"
  note loop = merge_loop_terminates [of img5_state 25 3000 ?st1 ?fin]
  have edges: "snd img5_state \<noteq> []" by (simp add: img5_state_def)
  from loop edges img5_step have "length (snd ?st1) < length (snd img5_state)" by blast
  moreover from loop have "length (merges 25 3000 img5_state) \<le> length (snd img5_state)"
    by blast
  moreover from loop img5_run have "snd ?fin = []" by blast
  ultimately show ?thesis using edges img5_step img5_run by blast
qed

subsection \<open>The selection of the edge to merge\<close>

lemma last_insort_key:
  "last (insort_key f x ys) = (if \<forall>y \<in> set ys. f y < f x then x else last ys)"
proof (induction ys)
  case Nil
  then show ?case by simp
next
  case (Cons y ys)
  show ?case
  proof (cases "f x \<le> f y")
    case True
    then show ?thesis by auto
  next
    case False
    moreover have "insort_key f x ys \<noteq> []" by (cases ys) auto
    ultimately show ?thesis using Cons.IH by auto
  qed
qed

lemma last_sort_key_Cons:
  "last (sort_key f (x # xs))
     = (if \<forall>y \<in> set xs. f y < f x then x else last (sort_key f xs))"
  by (simp add: last_insort_key)

lemma last_sort_key_max:
  "(\<forall>y \<in> set pre. f y \<le> f m) \<Longrightarrow> (\<forall>y \<in> set post. f y < f m)
   \<Longrightarrow> last (sort_key f (pre @ m # post)) = m"
proof (induction pre)
  case Nil
  then have "\<forall>y \<in> set post. f y < f m" by simp
  then show ?case by (simp only: append_Nil last_sort_key_Cons) (erule if_P)
next
  case (Cons x pre)
  then have "f x \<le> f m" by simp
  then have "\<not> (\<forall>y \<in> set (pre @ m # post). f y < f x)" by auto
  then have "last (sort_key f ((x # pre) @ m # post)) = last (sort_key f (pre @ m # post))"
    by (simp only: append_Cons last_sort_key_Cons if_False)
  with Cons show ?case by simp
qed

lemma last_sort_key_split:
  "xs \<noteq> [] \<Longrightarrow> \<exists>pre post. xs = pre @ last (sort_key f xs) # post
      \<and> (\<forall>y \<in> set pre. f y \<le> f (last (sort_key f xs)))
      \<and> (\<forall>y \<in> set post. f y < f (last (sort_key f xs)))"
proof (induction xs)
  case Nil
  then show ?case by simp
next
  case (Cons x xs)
  show ?case
  proof (cases "\<forall>y \<in> set xs. f y < f x")
    case True
    then have "last (sort_key f (x # xs)) = x"
      by (simp only: last_sort_key_Cons) (erule if_P)
    with True have "x # xs = [] @ last (sort_key f (x # xs)) # xs
      \<and> (\<forall>y \<in> set []. f y \<le> f (last (sort_key f (x # xs))))
      \<and> (\<forall>y \<in> set xs. f y < f (last (sort_key f (x # xs))))"
      by simp
    then show ?thesis by blast
  next
    case False
    then have eq: "last (sort_key f (x # xs)) = last (sort_key f xs)"
      by (simp only: last_sort_key_Cons if_False)
    from False have "xs \<noteq> []" by auto
    from Cons.IH [OF this] obtain pre post where
      split: "xs = pre @ last (sort_key f xs) # post"
      and pre: "\<forall>y \<in> set pre. f y \<le> f (last (sort_key f xs))"
      and post: "\<forall>y \<in> set post. f y < f (last (sort_key f xs))"
      by blast
    from False obtain y where y: "y \<in> set xs" "f x \<le> f y" by force
    have "f y \<le> f (last (sort_key f xs))"
    proof -
      from y(1) split have "y \<in> set pre \<or> y = last (sort_key f xs) \<or> y \<in> set post"
        by (metis Un_iff set_ConsD set_append)
      with pre post show ?thesis by force
    qed
    with y(2) have "f x \<le> f (last (sort_key f xs))" by simp
    with split pre post have "x # xs = (x # pre) @ last (sort_key f xs) # post
      \<and> (\<forall>y \<in> set (x # pre). f y \<le> f (last (sort_key f xs)))
      \<and> (\<forall>y \<in> set post. f y < f (last (sort_key f xs)))"
      by simp
    then show ?thesis unfolding eq by blast
  qed
qed

text \<open>
  What the edge selection does on ties: of the entries of the greatest score it takes the
  one that comes last in the dictionary, and no other entry: an entry that no earlier entry
  exceeds and that exceeds every later entry is the one selected. (The scores are those of
  the model, reals.)
\<close>

lemma select_edge_last_maximal:
  "(S \<noteq> [] \<longrightarrow>
      (\<exists>pre v post. S = pre @ (select_edge S, v) # post
         \<and> (\<forall>kv \<in> set pre. snd kv \<le> v) \<and> (\<forall>kv \<in> set post. snd kv < v)))
   \<and> (S = pre @ (k, v) # post
        \<and> (\<forall>kv \<in> set pre. snd kv \<le> v) \<and> (\<forall>kv \<in> set post. snd kv < v)
        \<longrightarrow> select_edge S = k)"
proof (intro conjI impI)
  assume "S \<noteq> []"
  from last_sort_key_split [OF this, of snd] obtain pre post where
    split: "S = pre @ last (sort_key snd S) # post"
    and pre: "\<forall>y \<in> set pre. snd y \<le> snd (last (sort_key snd S))"
    and post: "\<forall>y \<in> set post. snd y < snd (last (sort_key snd S))"
    by blast
  have "last (sort_key snd S) = (select_edge S, snd (last (sort_key snd S)))"
    by (simp add: select_edge_def)
  with split pre post
  show "\<exists>pre v post. S = pre @ (select_edge S, v) # post
         \<and> (\<forall>kv \<in> set pre. snd kv \<le> v) \<and> (\<forall>kv \<in> set post. snd kv < v)"
    by metis
next
  assume "S = pre @ (k, v) # post
        \<and> (\<forall>kv \<in> set pre. snd kv \<le> v) \<and> (\<forall>kv \<in> set post. snd kv < v)"
  then have "last (sort_key snd S) = (k, v)"
    using last_sort_key_max [of pre snd "(k, v)" post] by simp
  then show "select_edge S = k" by (simp add: select_edge_def)
qed

subsection \<open>The check of the channels\<close>

text \<open>
  C9. \<^verbatim>\<open>selective_search\<close> rejects an image whose third axis is not of length 3 with
  the AssertionError of its first statement (an array without a third axis is rejected by
  the IndexError of \<^verbatim>\<open>shape[2]\<close> in the same statement), whatever the other arguments
  and the outputs of the collaborators are, so nothing that is computed later can come
  before the rejection; on an image of 3 channels the check passes and the result is that
  of the rest of the function.
\<close>

theorem selective_search_channel_check:
  "(length shape < 3 \<or> shape ! 2 \<noteq> 3
      \<longrightarrow> selective_search shape im_mask hsv tex_grad region_pop max_region_size border
            \<in> {Inl IndexError, Inl AssertionError})
   \<and> (3 \<le> length shape \<and> shape ! 2 \<noteq> 3
      \<longrightarrow> selective_search shape im_mask hsv tex_grad region_pop max_region_size border
            = Inl AssertionError)
   \<and> (3 \<le> length shape \<and> shape ! 2 = 3
      \<longrightarrow> selective_search shape im_mask hsv tex_grad region_pop max_region_size border
            = search_regions (extract_regions im_mask hsv tex_grad)
                (int (shape ! 0) * int (shape ! 1)) (int (shape ! 1)) (int (shape ! 0))
                region_pop max_region_size border)"
  by (simp add: selective_search_def)

theorem selective_search_channel_check_witness:
  "length [5, 5 :: nat] < 3
   \<and> selective_search [5, 5] img5_mask img5_hsv img5_tex False 3000 0 = Inl IndexError
   \<and> 3 \<le> length [5, 5, 4 :: nat] \<and> [5, 5, 4 :: nat] ! 2 \<noteq> 3
   \<and> selective_search [5, 5, 4] img5_mask img5_hsv img5_tex False 3000 0 = Inl AssertionError
   \<and> 3 \<le> length [5, 5, 3 :: nat] \<and> [5, 5, 3 :: nat] ! 2 = 3
   \<and> selective_search [5, 5, 3] img5_mask img5_hsv img5_tex False 3000 0
       = Inr (map proposal_of
                [img5_region 0 0 4 4 [0] 16 16, img5_region 1 1 3 3 [1] 4 8,
                 img5_region 2 2 2 2 [2] 0 1, img5_r3, img5_r4], [])"
proof -
  have "selective_search [5, 5, 4] img5_mask img5_hsv img5_tex False 3000 0 = Inl AssertionError"
    using selective_search_channel_check [of "[5, 5, 4]" img5_mask img5_hsv img5_tex False 3000 0]
    by simp
  moreover
  have "selective_search [5, 5] img5_mask img5_hsv img5_tex False 3000 0
          \<in> {Inl IndexError, Inl AssertionError}"
    using selective_search_channel_check [of "[5, 5]" img5_mask img5_hsv img5_tex False 3000 0]
    by simp
  then have "selective_search [5, 5] img5_mask img5_hsv img5_tex False 3000 0 = Inl IndexError"
    by (simp add: selective_search_def)
  moreover
  have "selective_search [5, 5, 3] img5_mask img5_hsv img5_tex False 3000 0
          = search_regions (extract_regions img5_mask img5_hsv img5_tex) 25 5 5 False 3000 0"
    using selective_search_channel_check [of "[5, 5, 3]" img5_mask img5_hsv img5_tex False 3000 0]
    by simp
  ultimately show ?thesis by (simp add: img5_extract img5_search)
qed

subsection \<open>The histograms\<close>

lemma length_np_histogram: "length (np_histogram a bins lo hi) = bins"
  by (simp add: np_histogram_def)

lemma bin_index_less:
  assumes "0 < bins" "lo < hi" "lo \<le> v" "v \<le> hi"
  shows "bin_index bins lo hi v < bins"
proof (cases "v = hi")
  case True
  with assms(1) show ?thesis by (simp add: bin_index_def)
next
  case False
  with assms have "v - lo < hi - lo" "0 \<le> v - lo" "0 < hi - lo" by simp_all
  then have "(v - lo) * real bins < real bins * (hi - lo)" using assms(1) by simp
  with \<open>0 < hi - lo\<close> have "(v - lo) * real bins / (hi - lo) < real bins"
    by (simp add: pos_divide_less_eq)
  then have "\<lfloor>(v - lo) * real bins / (hi - lo)\<rfloor> < int bins" by (simp add: floor_less_iff)
  then have "nat \<lfloor>(v - lo) * real bins / (hi - lo)\<rfloor> < bins" using assms(1) by linarith
  with False show ?thesis by (simp add: bin_index_def)
qed

lemma sum_list_count_bins:
  "(\<forall>x \<in> set xs. P x \<longrightarrow> f x < n)
   \<Longrightarrow> sum_list (map (\<lambda>b. length (filter (\<lambda>x. P x \<and> f x = b) xs)) [0..<n])
       = length (filter P xs)"
proof (induction xs)
  case Nil
  then show ?case by simp
next
  case (Cons x xs)
  have one: "sum_list (map (\<lambda>b. if P x \<and> f x = b then 1 else 0) [0..<n]) = (if P x then 1 else (0::nat))"
  proof (cases "P x")
    case True
    with Cons.prems have "f x < n" by simp
    then have "sum_list (map (\<lambda>b. if f x = b then 1 else 0) [0..<n]) = (1::nat)"
      by (simp add: interv_sum_list_conv_sum_set_nat sum.delta')
    with True show ?thesis by simp
  next
    case False
    then show ?thesis by simp
  qed
  have "sum_list (map (\<lambda>b. length (filter (\<lambda>x. P x \<and> f x = b) (x # xs))) [0..<n])
      = sum_list (map (\<lambda>b. (if P x \<and> f x = b then 1 else 0)
                             + length (filter (\<lambda>x. P x \<and> f x = b) xs)) [0..<n])"
    by (intro arg_cong [where f = sum_list] map_cong) auto
  also have "\<dots> = sum_list (map (\<lambda>b. if P x \<and> f x = b then 1 else 0) [0..<n])
                 + sum_list (map (\<lambda>b. length (filter (\<lambda>x. P x \<and> f x = b) xs)) [0..<n])"
    by (rule sum_list_addf)
  also have "\<dots> = (if P x then 1 else 0) + length (filter P xs)"
    using one Cons by simp
  finally show ?case by simp
qed

lemma sum_list_np_histogram:
  assumes "0 < bins" "lo < hi"
  shows "sum_list (np_histogram a bins lo hi) = length (filter (\<lambda>v. lo \<le> v \<and> v \<le> hi) a)"
proof -
  have "sum_list (map (\<lambda>b. length (filter (\<lambda>v. (lo \<le> v \<and> v \<le> hi) \<and> bin_index bins lo hi v = b) a)) [0..<bins])
      = length (filter (\<lambda>v. lo \<le> v \<and> v \<le> hi) a)"
    by (rule sum_list_count_bins) (auto intro: bin_index_less assms)
  then show ?thesis by (simp add: np_histogram_def conj_assoc)
qed


lemma sum_list_scaled: "sum_list (map (\<lambda>n. real n / d) ns) = real (sum_list ns) / d"
  by (induction ns) (simp_all add: add_divide_distrib)

lemma hist_blocks:
  fixes h :: "nat \<Rightarrow> nat list"
  assumes "length (h 0) = n" "length (h 1) = n" "length (h 2) = n" "c < 3"
  shows "take n (drop (n * c) (map g (concat (map h [0, 1, 2])))) = map g (h c)"
proof -
  from \<open>c < 3\<close> consider "c = 0" | "c = 1" | "c = 2" by linarith
  then show ?thesis
    using assms(1-3) by cases simp_all
qed

lemma colour_block:
  "c < 3 \<Longrightarrow> take 25 (drop (25 * c) (calc_colour_hist img))
     = map (\<lambda>n. real n / real (length img)) (np_histogram (channel c img) 25 0 255)"
  unfolding calc_colour_hist_def
  by (rule hist_blocks [where h = "\<lambda>c. np_histogram (channel c img) 25 0 255"])
     (simp_all add: length_np_histogram)

lemma texture_block:
  "c < 3 \<Longrightarrow> take 10 (drop (10 * c) (calc_texture_hist img))
     = map (\<lambda>n. real n / real (length img)) (np_histogram (channel c img) 10 0 1)"
  unfolding calc_texture_hist_def
  by (rule hist_blocks [where h = "\<lambda>c. np_histogram (channel c img) 10 0 1"])
     (simp_all add: length_np_histogram)

lemma colour_block_sum:
  "c < 3 \<Longrightarrow> sum_list (take 25 (drop (25 * c) (calc_colour_hist img)))
     = real (length (filter (\<lambda>v. 0 \<le> v \<and> v \<le> 255) (channel c img))) / real (length img)"
  by (simp add: colour_block sum_list_scaled sum_list_np_histogram)

lemma texture_block_sum:
  "c < 3 \<Longrightarrow> sum_list (take 10 (drop (10 * c) (calc_texture_hist img)))
     = real (length (filter (\<lambda>v. 0 \<le> v \<and> v \<le> 1) (channel c img))) / real (length img)"
  by (simp add: texture_block sum_list_scaled sum_list_np_histogram)

lemma colour_hist_sum:
  "sum_list (calc_colour_hist img)
     = (\<Sum>c \<leftarrow> [0, 1, 2]. real (length (filter (\<lambda>v. 0 \<le> v \<and> v \<le> 255) (channel c img)))
                          / real (length img))"
  by (simp add: calc_colour_hist_def sum_list_scaled sum_list_np_histogram add_divide_distrib)

lemma texture_hist_sum:
  "sum_list (calc_texture_hist img)
     = (\<Sum>c \<leftarrow> [0, 1, 2]. real (length (filter (\<lambda>v. 0 \<le> v \<and> v \<le> 1) (channel c img)))
                          / real (length img))"
  by (simp add: calc_texture_hist_def sum_list_scaled sum_list_np_histogram add_divide_distrib)

lemma channel_in_range:
  "(\<forall>p \<in> set img. lo \<le> p ! c \<and> p ! c \<le> hi)
   \<Longrightarrow> length (filter (\<lambda>v. lo \<le> v \<and> v \<le> hi) (channel c img)) = length img"
  by (induction img) (simp_all add: channel_def)

text \<open>
  What the histograms sum to, for any sample that is not empty: the block of a channel (25
  bins of the colour histogram, 10 of the texture histogram) sums to the fraction of the
  values of that channel that lie within the range of the histogram; so when every value
  lies within the range each block sums to 1, and the histogram, the three blocks in a row
  divided once by the number of pixels, sums to 3.
\<close>

lemma histogram_block_sums:
  "img \<noteq> [] \<longrightarrow>
     length (calc_colour_hist img) = 75 \<and> length (calc_texture_hist img) = 30
   \<and> (\<forall>c<3. sum_list (take 25 (drop (25 * c) (calc_colour_hist img)))
               = real (length (filter (\<lambda>v. 0 \<le> v \<and> v \<le> 255) (channel c img)))
                 / real (length img))
   \<and> (\<forall>c<3. sum_list (take 10 (drop (10 * c) (calc_texture_hist img)))
               = real (length (filter (\<lambda>v. 0 \<le> v \<and> v \<le> 1) (channel c img)))
                 / real (length img))
   \<and> ((\<forall>p \<in> set img. \<forall>c<3. 0 \<le> p ! c \<and> p ! c \<le> 255)
        \<longrightarrow> (\<forall>c<3. sum_list (take 25 (drop (25 * c) (calc_colour_hist img))) = 1)
            \<and> sum_list (calc_colour_hist img) = 3)
   \<and> ((\<forall>p \<in> set img. \<forall>c<3. 0 \<le> p ! c \<and> p ! c \<le> 1)
        \<longrightarrow> (\<forall>c<3. sum_list (take 10 (drop (10 * c) (calc_texture_hist img))) = 1)
            \<and> sum_list (calc_texture_hist img) = 3)"
proof (intro impI conjI allI)
  show "length (calc_colour_hist img) = 75"
    by (simp add: calc_colour_hist_def length_np_histogram)
  show "length (calc_texture_hist img) = 30"
    by (simp add: calc_texture_hist_def length_np_histogram)
next
  fix c :: nat assume "c < 3"
  then show "sum_list (take 25 (drop (25 * c) (calc_colour_hist img)))
               = real (length (filter (\<lambda>v. 0 \<le> v \<and> v \<le> 255) (channel c img)))
                 / real (length img)"
    by (rule colour_block_sum)
next
  fix c :: nat assume "c < 3"
  then show "sum_list (take 10 (drop (10 * c) (calc_texture_hist img)))
               = real (length (filter (\<lambda>v. 0 \<le> v \<and> v \<le> 1) (channel c img)))
                 / real (length img)"
    by (rule texture_block_sum)
next
  fix c :: nat
  assume img: "img \<noteq> []" and range: "\<forall>p \<in> set img. \<forall>c<3. 0 \<le> p ! c \<and> p ! c \<le> 255"
    and c: "c < 3"
  from range c have "\<forall>p \<in> set img. 0 \<le> p ! c \<and> p ! c \<le> 255" by blast
  from channel_in_range [OF this] img c
  show "sum_list (take 25 (drop (25 * c) (calc_colour_hist img))) = 1"
    by (simp add: colour_block_sum)
next
  assume img: "img \<noteq> []" and range: "\<forall>p \<in> set img. \<forall>c<3. 0 \<le> p ! c \<and> p ! c \<le> 255"
  have "length (filter (\<lambda>v. 0 \<le> v \<and> v \<le> 255) (channel c img)) = length img" if "c < 3" for c
    using range that by (intro channel_in_range) blast
  from this [of 0] this [of 1] this [of 2] img
  show "sum_list (calc_colour_hist img) = 3"
    by (simp add: colour_hist_sum)
next
  fix c :: nat
  assume img: "img \<noteq> []" and range: "\<forall>p \<in> set img. \<forall>c<3. 0 \<le> p ! c \<and> p ! c \<le> 1"
    and c: "c < 3"
  from range c have "\<forall>p \<in> set img. 0 \<le> p ! c \<and> p ! c \<le> 1" by blast
  from channel_in_range [OF this] img c
  show "sum_list (take 10 (drop (10 * c) (calc_texture_hist img))) = 1"
    by (simp add: texture_block_sum)
next
  assume img: "img \<noteq> []" and range: "\<forall>p \<in> set img. \<forall>c<3. 0 \<le> p ! c \<and> p ! c \<le> 1"
  have "length (filter (\<lambda>v. 0 \<le> v \<and> v \<le> 1) (channel c img)) = length img" if "c < 3" for c
    using range that by (intro channel_in_range) blast
  from this [of 0] this [of 1] this [of 2] img
  show "sum_list (calc_texture_hist img) = 3"
    by (simp add: texture_hist_sum)
qed

text \<open>
  C6. The histograms have the lengths of the claim, 75 and 30, and are divided by the number
  of pixels of the sample, but they do not sum to 1, as the claim and the comment
  \<^verbatim>\<open># L1 normalize\<close> of the source say. For the sample of one black pixel the colour
  histogram sums to 3, one for each of the three channels that are put in a row before the
  division. For the sample of one pixel of a flat image, whose local binary patterns are
  255 and outside the range \<open>[0, 1]\<close> of the texture histogram, the texture histogram
  sums to 0.
\<close>

theorem histogram_not_normalised:
  "[[0, 0, 0 :: real]] \<noteq> []
   \<and> length (calc_colour_hist [[0, 0, 0]]) = 75
   \<and> sum_list (calc_colour_hist [[0, 0, 0]]) = 3
   \<and> sum_list (calc_colour_hist [[0, 0, 0]]) \<noteq> 1
   \<and> [[255, 255, 255, 0 :: real]] \<noteq> []
   \<and> length (calc_texture_hist [[255, 255, 255, 0]]) = 30
   \<and> sum_list (calc_texture_hist [[255, 255, 255, 0]]) = 0
   \<and> sum_list (calc_texture_hist [[255, 255, 255, 0]]) \<noteq> 1"
  by code_simp

subsection \<open>The proposals\<close>

lemma initial_state_table:
  "initial_state R imsize region_pop max_region_size = Inr st \<Longrightarrow> fst st = R"
  by (auto simp: initial_state_def split: sum.splits)

lemma expand_regions_keys: "map fst (expand_regions R0 border x_lim y_lim) = [0..<length R0]"
proof -
  have "map fst (expand_regions R0 border x_lim y_lim) = map fst (enumerate 0 R0)"
    by (simp add: expand_regions_def case_prod_unfold comp_def)
  then show ?thesis by simp
qed

lemma merge_step_distinct:
  assumes "distinct (map fst (fst st))" "merge_step imsize max_region_size st = Inr st'"
  shows "distinct (map fst (fst st'))"
proof -
  from merge_step_table [OF assms(2)] obtain r where
    "fst st' = fst st @ [(new_key (fst st), r)]" by blast
  with assms(1) new_key_fresh [of "fst st"] show ?thesis by simp
qed

lemma hierarchical_search_distinct:
  "hierarchical_search imsize max_region_size st = Inr st' \<Longrightarrow> distinct (map fst (fst st))
   \<Longrightarrow> distinct (map fst (fst st'))"
proof (induction imsize max_region_size st rule: hierarchical_search.induct)
  case (1 imsize max_region_size st)
  show ?case
  proof (cases "snd st = []")
    case True
    with "1.prems" show ?thesis by (simp add: hierarchical_search.simps [of _ _ st])
  next
    case False
    with "1.prems" obtain st1 where
      step: "merge_step imsize max_region_size st = Inr st1" and
      rest: "hierarchical_search imsize max_region_size st1 = Inr st'"
      by (auto simp: hierarchical_search.simps [of _ _ st] split: sum.splits)
    from "1.IH" [OF False step rest] merge_step_distinct [OF "1.prems"(2) step]
    show ?thesis by blast
  qed
qed

lemma proposal_of_fields:
  "rect (proposal_of r) = (min_x r, min_y r, max_x r - min_x r, max_y r - min_y r)"
  "bbox_size_p (proposal_of r) = bbox_size r"
  "size_p (proposal_of r) = size_r r"
  "labels_p (proposal_of r) = labels r"
  by (simp_all add: proposal_of_def)

lemma assemble_member:
  "(k, r) \<in> set R \<Longrightarrow> k \<notin> set pop \<Longrightarrow> proposal_of r \<in> set (assemble R pop)"
  by (force simp: assemble_def)

text \<open>
  C1, amended: when \<^verbatim>\<open>selective_search\<close> returns, the final table is the expanded initial
  table followed by one region for every merge, under distinct keys; nothing is ever removed
  from it. The proposals are the records of all the regions of the final table that
  \<^verbatim>\<open>region_pop\<close> has not flagged, one for each and in the order of the table, whether or not
  the region was an input of a merge: in particular the two inputs and the result of every
  merge have their record, unless flagged. The record of a region holds the rectangle
  \<open>(min_x, min_y, max_x - min_x, max_y - min_y)\<close> of its expanded box and its
  \<^verbatim>\<open>bbox_size\<close>, \<^verbatim>\<open>size\<close> and \<^verbatim>\<open>labels\<close>. The second list, \<^verbatim>\<open>og_regions\<close>, is empty.
\<close>

theorem proposals_cover_table:
  assumes "search_regions R0 imsize x_lim y_lim region_pop max_region_size border
             = Inr (regions, og_regions)"
  shows "\<exists>st Rf.
      initial_state (expand_regions R0 border x_lim y_lim) imsize region_pop max_region_size
        = Inr st
    \<and> hierarchical_search imsize max_region_size st = Inr (Rf, [])
    \<and> (\<exists>new. Rf = expand_regions R0 border x_lim y_lim @ new
          \<and> map fst new = map (\<lambda>m. snd (snd m)) (merges imsize max_region_size st))
    \<and> distinct (map fst Rf)
    \<and> regions
        = map (\<lambda>kr. proposal_of (snd kr))
            (filter (\<lambda>kr. fst kr \<notin> set (first_region_to_pop region_pop
                                           (expand_regions R0 border x_lim y_lim)
                                           max_region_size)) Rf)
    \<and> (\<forall>m \<in> set (merges imsize max_region_size st).
          \<forall>k \<in> {fst m, fst (snd m), snd (snd m)}.
            k \<notin> set (first_region_to_pop region_pop (expand_regions R0 border x_lim y_lim)
                        max_region_size)
            \<longrightarrow> (\<exists>r. (k, r) \<in> set Rf \<and> proposal_of r \<in> set regions))
    \<and> (\<forall>p \<in> set regions. \<exists>kr \<in> set Rf.
          rect p = (min_x (snd kr), min_y (snd kr),
                    max_x (snd kr) - min_x (snd kr), max_y (snd kr) - min_y (snd kr))
          \<and> bbox_size_p p = bbox_size (snd kr) \<and> size_p p = size_r (snd kr)
          \<and> labels_p p = labels (snd kr))
    \<and> og_regions = []"
proof -
  let ?R = "expand_regions R0 border x_lim y_lim"
  let ?pop = "first_region_to_pop region_pop ?R max_region_size"
  from assms obtain st fin where
    init: "initial_state ?R imsize region_pop max_region_size = Inr st" and
    run: "hierarchical_search imsize max_region_size st = Inr fin" and
    out: "regions = assemble (fst fin) ?pop" "og_regions = []"
    by (auto simp: search_regions_def Let_def split: sum.splits)
  have fin: "fin = (fst fin, [])"
    using hierarchical_search_final [OF run] by (simp add: prod_eq_iff)
  have tab: "fst st = ?R" by (rule initial_state_table [OF init])
  from hierarchical_search_extends [OF run] tab obtain new where
    new: "fst fin = ?R @ new"
         "map fst new = map (\<lambda>m. snd (snd m)) (merges imsize max_region_size st)"
    by auto
  have "distinct (map fst (fst st))" unfolding tab expand_regions_keys by simp
  then have dist: "distinct (map fst (fst fin))"
    by (rule hierarchical_search_distinct [OF run])
  have merged: "\<exists>r. (k, r) \<in> set (fst fin) \<and> proposal_of r \<in> set regions"
    if m: "m \<in> set (merges imsize max_region_size st)"
      and k: "k \<in> {fst m, fst (snd m), snd (snd m)}" and "k \<notin> set ?pop" for m k
  proof -
    from m have "(fst m, fst (snd m), snd (snd m)) \<in> set (merges imsize max_region_size st)"
      by simp
    from run_merge [OF run this] k obtain r where "map_of (fst fin) k = Some r" by auto
    then have "(k, r) \<in> set (fst fin)" by (rule map_of_SomeD)
    with that(3) show ?thesis unfolding out(1) by (blast intro: assemble_member)
  qed
  have recs: "\<exists>kr \<in> set (fst fin).
          rect p = (min_x (snd kr), min_y (snd kr),
                    max_x (snd kr) - min_x (snd kr), max_y (snd kr) - min_y (snd kr))
          \<and> bbox_size_p p = bbox_size (snd kr) \<and> size_p p = size_r (snd kr)
          \<and> labels_p p = labels (snd kr)" if "p \<in> set regions" for p
    using that unfolding out(1) assemble_def by (force simp: proposal_of_fields)
  from init run fin new dist out merged recs show ?thesis
    unfolding assemble_def by (intro exI [of _ st] exI [of _ "fst fin"]) auto
qed

theorem proposals_cover_table_witness:
  "search_regions img5_table0 25 5 5 False 3000 0
     = Inr (map proposal_of
              [img5_region 0 0 4 4 [0] 16 16, img5_region 1 1 3 3 [1] 4 8,
               img5_region 2 2 2 2 [2] 0 1, img5_r3, img5_r4], [])
   \<and> (\<exists>st Rf.
        initial_state (expand_regions img5_table0 0 5 5) 25 False 3000 = Inr st
      \<and> hierarchical_search 25 3000 st = Inr (Rf, [])
      \<and> (\<exists>new. Rf = expand_regions img5_table0 0 5 5 @ new
            \<and> map fst new = map (\<lambda>m. snd (snd m)) (merges 25 3000 st))
      \<and> distinct (map fst Rf)
      \<and> map proposal_of
            [img5_region 0 0 4 4 [0] 16 16, img5_region 1 1 3 3 [1] 4 8,
             img5_region 2 2 2 2 [2] 0 1, img5_r3, img5_r4]
          = map (\<lambda>kr. proposal_of (snd kr))
              (filter (\<lambda>kr. fst kr \<notin> set (first_region_to_pop False
                                             (expand_regions img5_table0 0 5 5) 3000)) Rf))"
  using proposals_cover_table [OF img5_search] img5_search by blast

text \<open>
  C1, as stated: the proposals hold no record of a region that was an input of a merge. On
  the small image the loop merges the regions 1 and 2 into 3 and then 3 and 0 into 4; the
  proposals are the records of all five regions, those of 0, 1, 2 and 3 among them.
\<close>

theorem proposals_consumed_counterexample:
  "selective_search [5, 5, 3] img5_mask img5_hsv img5_tex False 3000 0
     = Inr ([\<lparr>rect = (0, 0, 4, 4), bbox_size_p = 16, size_p = 16, labels_p = [0]\<rparr>,
             \<lparr>rect = (1, 1, 2, 2), bbox_size_p = 4, size_p = 8, labels_p = [1]\<rparr>,
             \<lparr>rect = (2, 2, 0, 0), bbox_size_p = 0, size_p = 1, labels_p = [2]\<rparr>,
             \<lparr>rect = (1, 1, 2, 2), bbox_size_p = 4, size_p = 9, labels_p = [1, 2]\<rparr>,
             \<lparr>rect = (0, 0, 4, 4), bbox_size_p = 16, size_p = 25, labels_p = [1, 2, 0]\<rparr>],
            [])
   \<and> initial_state (expand_regions (extract_regions img5_mask img5_hsv img5_tex) 0 5 5)
         25 False 3000 = Inr img5_state
   \<and> merges 25 3000 img5_state = [(1, 2, 3), (3, 0, 4)]"
  by (simp add: selective_search_def img5_extract img5_expand img5_initial img5_merges
        img5_search proposal_of_def img5_region_def img5_r3_def img5_r4_def)

subsection \<open>Regions above the size cap\<close>

lemma dict_set_keys: "fst ` set (dict_set d k v) = insert k (fst ` set d)"
proof (induction d)
  case Nil
  then show ?case by simp
next
  case (Cons a d)
  obtain k' v' where a: "a = (k', v')" by (cases a)
  show ?case
  proof (cases "k' = k")
    case True
    then show ?thesis unfolding a by auto
  next
    case False
    then show ?thesis unfolding a using Cons.IH by auto
  qed
qed

lemma neighbour_pairs_members:
  "(a, b) \<in> set (neighbour_pairs R) \<Longrightarrow> a \<in> set R \<and> b \<in> set R"
  by (induction R) auto

lemma initial_similarities_keys:
  "initial_similarities ns imsize S = Inr S'
   \<Longrightarrow> fst ` set S' \<subseteq> fst ` set S \<union> (\<lambda>ab. (fst (fst ab), fst (snd ab))) ` set ns"
proof (induction ns imsize S rule: initial_similarities.induct)
  case (1 imsize S)
  then show ?case by simp
next
  case (2 ai ar bi br ns imsize S)
  from "2.prems" obtain s where
    s: "calc_sim ar br imsize = Inr s" and
    rest: "initial_similarities ns imsize (dict_set S (ai, bi) s) = Inr S'"
    by (auto split: sum.splits)
  from "2.IH" [OF s rest] show ?case by (auto simp: dict_set_keys)
qed

lemma pop_similarities_subset: "set (pop_similarities region_pop R S max_region_size) \<subseteq> set S"
  by (simp add: pop_similarities_def fold_dict_del)

lemma initial_state_edges:
  assumes "initial_state R imsize region_pop max_region_size = Inr st"
  shows "edges_in_table st"
proof -
  from assms obtain nm S where
    nm: "extract_neighbours R = Inr nm" and
    S: "initial_similarities (fst nm) imsize [] = Inr S" and
    st: "st = (R, pop_similarities region_pop R S max_region_size)"
    by (auto simp: initial_state_def split: sum.splits)
  from nm have "fst nm = neighbour_pairs R"
    by (auto simp: extract_neighbours_def Let_def split: if_splits)
  with initial_similarities_keys [OF S]
  have keys: "fst ` set S \<subseteq> (\<lambda>ab. (fst (fst ab), fst (snd ab))) ` set (neighbour_pairs R)"
    by simp
  have inS: "fst (fst kv) \<in> fst ` set R \<and> snd (fst kv) \<in> fst ` set R" if "kv \<in> set S" for kv
  proof -
    from that have "fst kv \<in> fst ` set S" by simp
    with keys obtain ab where
      ab: "ab \<in> set (neighbour_pairs R)" "fst kv = (fst (fst ab), fst (snd ab))"
      by blast
    from ab(1) have "(fst ab, snd ab) \<in> set (neighbour_pairs R)" by simp
    from neighbour_pairs_members [OF this] ab(2) show ?thesis by simp
  qed
  have sub: "set (snd st) \<subseteq> set S"
    unfolding st using pop_similarities_subset [of region_pop R S max_region_size] by simp
  show ?thesis
    unfolding edges_in_table_def
  proof
    fix kv assume "kv \<in> set (snd st)"
    with sub have "kv \<in> set S" by blast
    from inS [OF this] show "fst (fst kv) \<in> fst ` set (fst st) \<and> snd (fst kv) \<in> fst ` set (fst st)"
      by (simp add: st)
  qed
qed

lemma add_edges_keys:
  "add_edges R t rt i j imsize ks S = Inr S' \<Longrightarrow> k' \<in> fst ` set S'
   \<Longrightarrow> k' \<in> fst ` set S
       \<or> (fst k' = t \<and> snd k' \<in> fst ` set R
           \<and> (\<exists>k \<in> set ks. snd k' = fst k \<or> snd k' = snd k))"
proof (induction ks arbitrary: S)
  case Nil
  then show ?case by simp
next
  case (Cons k ks)
  define n where "n = (if fst k = i \<or> fst k = j then snd k else fst k)"
  from Cons.prems(1) obtain rn s where
    rn: "dict_get R n = Inr rn" and
    rest: "add_edges R t rt i j imsize ks (dict_set S (t, n) s) = Inr S'"
    unfolding n_def by (auto simp: Let_def split: sum.splits)
  from rn have "map_of R n = Some rn" by (simp add: dict_get_Inr)
  then have n_in: "n \<in> fst ` set R" by (force dest: map_of_SomeD)
  have n_k: "n = fst k \<or> n = snd k" by (simp add: n_def)
  from Cons.IH [OF rest Cons.prems(2)]
  consider "k' = (t, n)" | "k' \<in> fst ` set S"
    | "fst k' = t \<and> snd k' \<in> fst ` set R \<and> (\<exists>k \<in> set ks. snd k' = fst k \<or> snd k' = snd k)"
    unfolding dict_set_keys by blast
  then show ?case
  proof cases
    case 1
    with n_in n_k show ?thesis by simp
  next
    case 2
    then show ?thesis by simp
  next
    case 3
    then show ?thesis by auto
  qed
qed

lemma merge_step_Inr:
  assumes "merge_step imsize max_region_size st = Inr st'"
  obtains ri rj where
    "map_of (fst st) (fst (select_edge (snd st))) = Some ri"
    "map_of (fst st) (snd (select_edge (snd st))) = Some rj"
    "fst st' = fst st @ [(new_key (fst st), merge_regions ri rj)]"
    "bbox_size (merge_regions ri rj) > max_region_size
     \<longrightarrow> snd st' = fold (\<lambda>k S. dict_del S k)
                       (key_to_delete (fst (select_edge (snd st))) (snd (select_edge (snd st)))
                          (snd st)) (snd st)"
    "\<not> bbox_size (merge_regions ri rj) > max_region_size
     \<longrightarrow> add_edges (fst st') (new_key (fst st)) (merge_regions ri rj)
           (fst (select_edge (snd st))) (snd (select_edge (snd st))) imsize
           (filter (\<lambda>a. a \<noteq> (fst (select_edge (snd st)), snd (select_edge (snd st))))
              (key_to_delete (fst (select_edge (snd st))) (snd (select_edge (snd st)))
                 (snd st)))
           (fold (\<lambda>k S. dict_del S k)
              (key_to_delete (fst (select_edge (snd st))) (snd (select_edge (snd st)))
                 (snd st)) (snd st))
         = Inr (snd st')"
proof -
  let ?R = "fst st" and ?S = "snd st"
  let ?i = "fst (select_edge ?S)" and ?j = "snd (select_edge ?S)"
  from assms have R: "?R \<noteq> []"
    unfolding merge_step_def Let_def by (cases "?R = []") simp_all
  from assms R obtain ri where ri: "dict_get ?R ?i = Inr ri"
    unfolding merge_step_def Let_def by (cases "dict_get ?R ?i") simp_all
  from assms R ri obtain rj where rj: "dict_get ?R ?j = Inr rj"
    unfolding merge_step_def Let_def by (cases "dict_get ?R ?j") simp_all
  have tab: "dict_set ?R (new_key ?R) (merge_regions ri rj)
               = ?R @ [(new_key ?R, merge_regions ri rj)]"
    by (rule dict_set_fresh [OF new_key_fresh])
  show ?thesis
  proof (cases "bbox_size (merge_regions ri rj) > max_region_size")
    case True
    with assms R ri rj have "st' = (dict_set ?R (new_key ?R) (merge_regions ri rj),
        fold (\<lambda>k S. dict_del S k) (key_to_delete ?i ?j ?S) ?S)"
      unfolding merge_step_def Let_def by simp
    with True ri rj tab show ?thesis
      by (intro that [of ri rj]) (simp_all add: dict_get_Inr)
  next
    case False
    with assms R ri rj obtain S2 where
      S2: "add_edges (dict_set ?R (new_key ?R) (merge_regions ri rj)) (new_key ?R)
             (merge_regions ri rj) ?i ?j imsize
             (filter (\<lambda>a. a \<noteq> (?i, ?j)) (key_to_delete ?i ?j ?S))
             (fold (\<lambda>k S. dict_del S k) (key_to_delete ?i ?j ?S) ?S) = Inr S2"
      and st': "st' = (dict_set ?R (new_key ?R) (merge_regions ri rj), S2)"
      unfolding merge_step_def Let_def by (simp split: sum.splits)
    with False ri rj tab show ?thesis
      by (intro that [of ri rj]) (simp_all add: dict_get_Inr)
  qed
qed

lemma merge_step_edges:
  assumes "merge_step imsize max_region_size st = Inr st'" and "k' \<in> fst ` set (snd st')"
  shows "k' \<in> fst ` set (snd st)
       \<or> (fst k' = new_key (fst st) \<and> snd k' \<in> fst ` set (fst st')
           \<and> (\<exists>k \<in> fst ` set (snd st). snd k' = fst k \<or> snd k' = snd k))"
proof -
  let ?S = "snd st"
  let ?i = "fst (select_edge ?S)" and ?j = "snd (select_edge ?S)"
  let ?ktd = "key_to_delete ?i ?j ?S"
  let ?S1 = "fold (\<lambda>k S. dict_del S k) ?ktd ?S"
  have S1: "set ?S1 \<subseteq> set ?S" by (simp add: fold_dict_del)
  have ktd: "set (filter (\<lambda>a. a \<noteq> (?i, ?j)) ?ktd) \<subseteq> fst ` set ?S"
    by (auto simp: key_to_delete_def)
  from assms(1) obtain ri rj where
    frozen: "bbox_size (merge_regions ri rj) > max_region_size \<longrightarrow> snd st' = ?S1" and
    edges: "\<not> bbox_size (merge_regions ri rj) > max_region_size
      \<longrightarrow> add_edges (fst st') (new_key (fst st)) (merge_regions ri rj) ?i ?j imsize
            (filter (\<lambda>a. a \<noteq> (?i, ?j)) ?ktd) ?S1 = Inr (snd st')"
    by (rule merge_step_Inr)
  show ?thesis
  proof (cases "bbox_size (merge_regions ri rj) > max_region_size")
    case True
    with frozen have "snd st' = ?S1" by simp
    with assms(2) S1 have "k' \<in> fst ` set ?S" by auto
    then show ?thesis by simp
  next
    case False
    with edges have "add_edges (fst st') (new_key (fst st)) (merge_regions ri rj) ?i ?j imsize
            (filter (\<lambda>a. a \<noteq> (?i, ?j)) ?ktd) ?S1 = Inr (snd st')" by simp
    from add_edges_keys [OF this assms(2)]
    consider "k' \<in> fst ` set ?S1"
      | k where "fst k' = new_key (fst st)" "snd k' \<in> fst ` set (fst st')"
          "k \<in> set (filter (\<lambda>a. a \<noteq> (?i, ?j)) ?ktd)" "snd k' = fst k \<or> snd k' = snd k"
      by blast
    then show ?thesis
    proof cases
      case 1
      with S1 have "k' \<in> fst ` set ?S" by auto
      then show ?thesis by simp
    next
      case 2
      from 2(3) ktd have "k \<in> fst ` set ?S" by blast
      with 2(1,2,4) show ?thesis by blast
    qed
  qed
qed

lemma merge_step_frozen:
  assumes "merge_step imsize max_region_size st = Inr st'"
    and "map_of (fst st') (new_key (fst st)) = Some rt"
    and "bbox_size rt > max_region_size"
  shows "set (snd st') \<subseteq> set (snd st)"
proof -
  from assms(1) obtain ri rj where
    tab: "fst st' = fst st @ [(new_key (fst st), merge_regions ri rj)]" and
    frozen: "bbox_size (merge_regions ri rj) > max_region_size
      \<longrightarrow> snd st' = fold (\<lambda>k S. dict_del S k)
                       (key_to_delete (fst (select_edge (snd st))) (snd (select_edge (snd st)))
                          (snd st)) (snd st)"
    by (rule merge_step_Inr)
  from assms(2) have "rt = merge_regions ri rj"
    unfolding tab using map_of_append_fresh [OF new_key_fresh, of "fst st" "merge_regions ri rj"]
    by simp
  with assms(3) frozen show ?thesis by (simp add: fold_dict_del)
qed

lemma merge_step_keys:
  "merge_step imsize max_region_size st = Inr st' \<Longrightarrow> fst ` set (fst st) \<subseteq> fst ` set (fst st')"
  by (drule merge_step_table) auto

lemma merge_step_invariant:
  assumes "edges_in_table st" "merge_step imsize max_region_size st = Inr st'"
  shows "edges_in_table st'"
proof -
  from merge_step_table [OF assms(2)] have t: "new_key (fst st) \<in> fst ` set (fst st')"
    by force
  show ?thesis
    unfolding edges_in_table_def
  proof
    fix kv assume "kv \<in> set (snd st')"
    then have "fst kv \<in> fst ` set (snd st')" by simp
    from merge_step_edges [OF assms(2) this] consider "fst kv \<in> fst ` set (snd st)"
      | "fst (fst kv) = new_key (fst st)" "snd (fst kv) \<in> fst ` set (fst st')"
      by blast
    then show "fst (fst kv) \<in> fst ` set (fst st') \<and> snd (fst kv) \<in> fst ` set (fst st')"
    proof cases
      case 1
      then obtain kv0 where kv0: "kv0 \<in> set (snd st)" "fst kv0 = fst kv" by force
      with assms(1) have "fst (fst kv) \<in> fst ` set (fst st)" "snd (fst kv) \<in> fst ` set (fst st)"
        unfolding edges_in_table_def by force+
      with merge_step_keys [OF assms(2)] show ?thesis by blast
    next
      case 2
      with t show ?thesis by simp
    qed
  qed
qed

lemma merge_step_untouched:
  assumes "t \<in> fst ` set (fst st)" "\<forall>kv \<in> set (snd st). \<not> in_pair t (fst kv)"
    and "merge_step imsize max_region_size st = Inr st'"
  shows "\<forall>kv \<in> set (snd st'). \<not> in_pair t (fst kv)"
proof
  fix kv assume "kv \<in> set (snd st')"
  then have "fst kv \<in> fst ` set (snd st')" by simp
  from merge_step_edges [OF assms(3) this] consider "fst kv \<in> fst ` set (snd st)"
    | k where "fst (fst kv) = new_key (fst st)" "k \<in> fst ` set (snd st)"
        "snd (fst kv) = fst k \<or> snd (fst kv) = snd k"
    by blast
  then show "\<not> in_pair t (fst kv)"
  proof cases
    case 1
    then obtain kv0 where "kv0 \<in> set (snd st)" "fst kv0 = fst kv" by force
    with assms(2) show ?thesis by force
  next
    case 2
    from 2(2) obtain kv0 where "kv0 \<in> set (snd st)" "fst kv0 = k" by force
    with assms(2) have "\<not> in_pair t k" by force
    with 2(3) have "snd (fst kv) \<noteq> t" by (auto simp: in_pair_def)
    moreover from assms(1) new_key_fresh [of "fst st"] have "new_key (fst st) \<noteq> t" by force
    ultimately show ?thesis using 2(1) by (simp add: in_pair_def)
  qed
qed

lemma run_states_cases:
  assumes "st2 \<in> set (run_states imsize max_region_size st)"
  obtains "st2 = st"
  | st1 where "snd st \<noteq> []" "merge_step imsize max_region_size st = Inr st1"
      "st2 \<in> set (run_states imsize max_region_size st1)"
proof (cases "snd st = []")
  case True
  with assms have "st2 = st" by (simp add: run_states.simps [of _ _ st])
  then show ?thesis by (rule that(1))
next
  case False
  show ?thesis
  proof (cases "merge_step imsize max_region_size st")
    case (Inl e)
    with False assms have "st2 = st" by (simp add: run_states.simps [of _ _ st])
    then show ?thesis by (rule that(1))
  next
    case (Inr st1)
    with False assms have "st2 = st \<or> st2 \<in> set (run_states imsize max_region_size st1)"
      by (simp add: run_states.simps [of _ _ st])
    with False Inr show ?thesis using that by blast
  qed
qed

lemma merges_cases:
  assumes "m \<in> set (merges imsize max_region_size st)"
  obtains st1 where "snd st \<noteq> []" "merge_step imsize max_region_size st = Inr st1"
      "m = (fst (select_edge (snd st)), snd (select_edge (snd st)), new_key (fst st))
       \<or> m \<in> set (merges imsize max_region_size st1)"
proof (cases "snd st = []")
  case True
  with assms show ?thesis by (simp add: merges.simps [of _ _ st])
next
  case False
  show ?thesis
  proof (cases "merge_step imsize max_region_size st")
    case (Inl e)
    with False assms show ?thesis by (simp add: merges.simps [of _ _ st])
  next
    case (Inr st1)
    with False assms have
      "m = (fst (select_edge (snd st)), snd (select_edge (snd st)), new_key (fst st))
       \<or> m \<in> set (merges imsize max_region_size st1)"
      by (simp add: merges.simps [of _ _ st])
    with False Inr show ?thesis using that by blast
  qed
qed

lemma run_states_untouched:
  "t \<in> fst ` set (fst st) \<Longrightarrow> \<forall>kv \<in> set (snd st). \<not> in_pair t (fst kv)
   \<Longrightarrow> st2 \<in> set (run_states imsize max_region_size st)
   \<Longrightarrow> \<forall>kv \<in> set (snd st2). \<not> in_pair t (fst kv)"
proof (induction imsize max_region_size st rule: run_states.induct)
  case (1 imsize max_region_size st)
  from "1.prems"(3) consider "st2 = st"
    | st1 where "snd st \<noteq> []" "merge_step imsize max_region_size st = Inr st1"
        "st2 \<in> set (run_states imsize max_region_size st1)"
    by (rule run_states_cases)
  then show ?case
  proof cases
    case 1
    with "1.prems"(2) show ?thesis by simp
  next
    case 2
    from merge_step_keys [OF 2(2)] "1.prems"(1) have "t \<in> fst ` set (fst st1)" by blast
    moreover have "\<forall>kv \<in> set (snd st1). \<not> in_pair t (fst kv)"
      by (rule merge_step_untouched [OF "1.prems"(1,2) 2(2)])
    ultimately show ?thesis using 2(3) by (rule "1.IH" [OF 2(1,2)])
  qed
qed

lemma merges_untouched:
  "t \<in> fst ` set (fst st) \<Longrightarrow> \<forall>kv \<in> set (snd st). \<not> in_pair t (fst kv)
   \<Longrightarrow> m \<in> set (merges imsize max_region_size st)
   \<Longrightarrow> fst m \<noteq> t \<and> fst (snd m) \<noteq> t"
proof (induction imsize max_region_size st rule: merges.induct)
  case (1 imsize max_region_size st)
  from "1.prems"(3) obtain st1 where
    ne: "snd st \<noteq> []" and step: "merge_step imsize max_region_size st = Inr st1" and
    m: "m = (fst (select_edge (snd st)), snd (select_edge (snd st)), new_key (fst st))
        \<or> m \<in> set (merges imsize max_region_size st1)"
    by (rule merges_cases)
  from m show ?case
  proof
    assume m: "m = (fst (select_edge (snd st)), snd (select_edge (snd st)), new_key (fst st))"
    from select_edge_in_set [OF ne] obtain v where "(select_edge (snd st), v) \<in> set (snd st)" ..
    with "1.prems"(2) have "\<not> in_pair t (select_edge (snd st))" by force
    with m show ?thesis by (auto simp: in_pair_def)
  next
    assume m: "m \<in> set (merges imsize max_region_size st1)"
    from merge_step_keys [OF step] "1.prems"(1) have "t \<in> fst ` set (fst st1)" by blast
    moreover have "\<forall>kv \<in> set (snd st1). \<not> in_pair t (fst kv)"
      by (rule merge_step_untouched [OF "1.prems"(1,2) step])
    ultimately show ?thesis using m by (rule "1.IH" [OF ne step])
  qed
qed

lemma run_states_invariant:
  "edges_in_table st0 \<Longrightarrow> st \<in> set (run_states imsize max_region_size st0)
   \<Longrightarrow> edges_in_table st \<and> fst ` set (fst st0) \<subseteq> fst ` set (fst st)
       \<and> hierarchical_search imsize max_region_size st
           = hierarchical_search imsize max_region_size st0"
proof (induction imsize max_region_size st0 rule: run_states.induct)
  case (1 imsize max_region_size st0)
  from "1.prems"(2) consider "st = st0"
    | st1 where "snd st0 \<noteq> []" "merge_step imsize max_region_size st0 = Inr st1"
        "st \<in> set (run_states imsize max_region_size st1)"
    by (rule run_states_cases)
  then show ?case
  proof cases
    case 1
    with "1.prems"(1) show ?thesis by simp
  next
    case 2
    have "edges_in_table st1" by (rule merge_step_invariant [OF "1.prems"(1) 2(2)])
    have "hierarchical_search imsize max_region_size st0
            = hierarchical_search imsize max_region_size st1"
      using 2(1,2) by (simp add: hierarchical_search.simps [of _ _ st0])
    with "1.IH" [OF 2(1,2) \<open>edges_in_table st1\<close> 2(3)] merge_step_keys [OF 2(2)]
    show ?thesis by auto
  qed
qed

lemma first_region_to_pop_keys:
  "set (first_region_to_pop region_pop R max_region_size) \<subseteq> fst ` set R"
  by (auto simp: first_region_to_pop_def)

lemma run_states_self: "st \<in> set (run_states imsize max_region_size st)"
  by (simp add: run_states.simps [of _ _ st])

lemma img7_extract: "extract_regions img7_mask img7_hsv img7_tex = img7_table0"
  by code_simp

lemma img7_expand: "expand_regions img7_table0 0 7 5 = img7_table"
  by code_simp

lemma img7_initial: "initial_state img7_table 35 False 3 = Inr img7_state"
  by code_simp

lemma img7_step: "merge_step 35 3 img7_state = Inr img7_state1"
  by code_simp

lemma img7_run:
  "hierarchical_search 35 3 img7_state
     = Inr (img7_table @ [(4, img7_r4), (5, img7_r5)], [])"
  by code_simp

lemma img7_merges: "merges 35 3 img7_state = [(1, 2, 4), (0, 3, 5)]"
  by code_simp

lemma img7_merges_later: "merges 35 3 img7_state1 = [(0, 3, 5)]"
  by code_simp

lemma img7_selected: "select_edge (snd img7_state) = (1, 2)" "new_key (fst img7_state) = 4"
  by code_simp+

lemma img7_search:
  "search_regions (extract_regions img7_mask img7_hsv img7_tex) 35 7 5 False 3 0
     = Inr (map proposal_of
              [img5_region 0 0 6 4 [0] 24 25, img5_region 1 1 3 3 [1] 4 8,
               img5_region 2 2 2 2 [2] 0 1, img5_region 5 3 5 3 [3] 0 1,
               img7_r4, img7_r5], [])"
  unfolding search_regions_def img7_extract img7_expand Let_def img7_initial sum.case img7_run
  by (simp add: assemble_def first_region_to_pop_def img7_table_def)

lemma proposal_of_merge_regions:
  "proposal_of (merge_regions ri rj)
     = \<lparr> rect = (min (min_x ri) (min_x rj), min (min_y ri) (min_y rj),
                max (max_x ri) (max_x rj) - min (min_x ri) (min_x rj),
                max (max_y ri) (max_y rj) - min (min_y ri) (min_y rj)),
         bbox_size_p = (max (max_x ri) (max_x rj) - min (min_x ri) (min_x rj))
                       * (max (max_y ri) (max_y rj) - min (min_y ri) (min_y rj)),
         size_p = size_r ri + size_r rj,
         labels_p = labels ri @ labels rj \<rparr>"
  by (simp add: proposal_of_def merge_regions_def Let_def)

text \<open>
  C8. In a run of \<^verbatim>\<open>selective_search\<close> that returns, let an iteration of the loop, in a
  state \<open>st\<close> of the run, merge the regions \<open>ri\<close> and \<open>rj\<close> of the selected edge into a
  region whose \<^verbatim>\<open>bbox_size\<close> exceeds \<^verbatim>\<open>max_region_size\<close>. Then the iteration inserts no
  edge: the edges after it are those before it that touch neither of the two selected
  regions. No edge of the state after the iteration has the key of the merged region at
  either end, nor has any edge of any later state of the run, and no later merge has the
  merged region as an input. The merged region is in the final table under its key, and
  its record is among the proposals: the record with the rectangle of the box that spans
  the boxes of \<open>ri\<close> and \<open>rj\<close>, the area of that box, the sum of their sizes and their
  labels.
\<close>

theorem frozen_region:
  assumes "search_regions R0 imsize x_lim y_lim region_pop max_region_size border
             = Inr (regions, og_regions)"
    and "initial_state (expand_regions R0 border x_lim y_lim) imsize region_pop max_region_size
           = Inr st0"
    and "st \<in> set (run_states imsize max_region_size st0)"
    and "snd st \<noteq> []"
    and "merge_step imsize max_region_size st = Inr st1"
    and "map_of (fst st) (fst (select_edge (snd st))) = Some ri"
    and "map_of (fst st) (snd (select_edge (snd st))) = Some rj"
    and "bbox_size (merge_regions ri rj) > max_region_size"
  shows "snd st1 = filter (\<lambda>kv. \<not> (in_pair (fst (select_edge (snd st))) (fst kv)
                                   \<or> in_pair (snd (select_edge (snd st))) (fst kv))) (snd st)
    \<and> (\<forall>kv \<in> set (snd st1). \<not> in_pair (new_key (fst st)) (fst kv))
    \<and> (\<forall>st2 \<in> set (run_states imsize max_region_size st1).
          \<forall>kv \<in> set (snd st2). \<not> in_pair (new_key (fst st)) (fst kv))
    \<and> (\<forall>m \<in> set (merges imsize max_region_size st1).
          fst m \<noteq> new_key (fst st) \<and> fst (snd m) \<noteq> new_key (fst st))
    \<and> (\<exists>Rf. hierarchical_search imsize max_region_size st0 = Inr (Rf, [])
          \<and> map_of Rf (new_key (fst st)) = Some (merge_regions ri rj))
    \<and> \<lparr> rect = (min (min_x ri) (min_x rj), min (min_y ri) (min_y rj),
                max (max_x ri) (max_x rj) - min (min_x ri) (min_x rj),
                max (max_y ri) (max_y rj) - min (min_y ri) (min_y rj)),
         bbox_size_p = (max (max_x ri) (max_x rj) - min (min_x ri) (min_x rj))
                       * (max (max_y ri) (max_y rj) - min (min_y ri) (min_y rj)),
         size_p = size_r ri + size_r rj,
         labels_p = labels ri @ labels rj \<rparr> \<in> set regions"
proof -
  let ?R = "expand_regions R0 border x_lim y_lim"
  let ?pop = "first_region_to_pop region_pop ?R max_region_size"
  let ?t = "new_key (fst st)"
  let ?rt = "merge_regions ri rj"
  from assms(5) obtain ri' rj' where
    ri': "map_of (fst st) (fst (select_edge (snd st))) = Some ri'" and
    rj': "map_of (fst st) (snd (select_edge (snd st))) = Some rj'" and
    tab: "fst st1 = fst st @ [(?t, merge_regions ri' rj')]" and
    frozen: "bbox_size (merge_regions ri' rj') > max_region_size
      \<longrightarrow> snd st1 = fold (\<lambda>k S. dict_del S k)
                       (key_to_delete (fst (select_edge (snd st))) (snd (select_edge (snd st)))
                          (snd st)) (snd st)"
    by (rule merge_step_Inr)
  from ri' rj' assms(6,7) have same_parents: "ri' = ri" "rj' = rj" by simp_all
  have look1: "map_of (fst st1) ?t = Some ?rt"
    unfolding tab same_parents by (rule map_of_append_fresh [OF new_key_fresh])
  from frozen assms(8) have edges1:
    "snd st1 = filter (\<lambda>kv. \<not> (in_pair (fst (select_edge (snd st))) (fst kv)
                                 \<or> in_pair (snd (select_edge (snd st))) (fst kv))) (snd st)"
    unfolding same_parents deleted_edges by simp
  from assms(1,2) obtain fin where
    run: "hierarchical_search imsize max_region_size st0 = Inr fin" and
    out: "regions = assemble (fst fin) ?pop"
    by (auto simp: search_regions_def Let_def split: sum.splits)
  have fin: "fin = (fst fin, [])"
    using hierarchical_search_final [OF run] by (simp add: prod_eq_iff)
  have inv0: "edges_in_table st0" by (rule initial_state_edges [OF assms(2)])
  from run_states_invariant [OF inv0 assms(3)] have
    inv: "edges_in_table st" and keys: "fst ` set (fst st0) \<subseteq> fst ` set (fst st)" and
    same: "hierarchical_search imsize max_region_size st
             = hierarchical_search imsize max_region_size st0"
    by blast+
  have fresh: "?t \<notin> fst ` set (fst st)" by (rule new_key_fresh)
  have no_edge: "\<forall>kv \<in> set (snd st1). \<not> in_pair ?t (fst kv)"
  proof
    fix kv assume "kv \<in> set (snd st1)"
    with merge_step_frozen [OF assms(5) look1 assms(8)] have "kv \<in> set (snd st)" by blast
    with inv have mem: "fst (fst kv) \<in> fst ` set (fst st)" "snd (fst kv) \<in> fst ` set (fst st)"
      unfolding edges_in_table_def by blast+
    from fresh mem(1) have "?t \<noteq> fst (fst kv)" by force
    moreover from fresh mem(2) have "?t \<noteq> snd (fst kv)" by force
    ultimately show "\<not> in_pair ?t (fst kv)" by (simp add: in_pair_def)
  qed
  from look1 have t_in: "?t \<in> fst ` set (fst st1)"
    by (force dest: map_of_SomeD)
  have later: "\<forall>st2 \<in> set (run_states imsize max_region_size st1).
          \<forall>kv \<in> set (snd st2). \<not> in_pair ?t (fst kv)"
    using run_states_untouched [OF t_in no_edge] by blast
  have never: "\<forall>m \<in> set (merges imsize max_region_size st1). fst m \<noteq> ?t \<and> fst (snd m) \<noteq> ?t"
    using merges_untouched [OF t_in no_edge] by blast
  from assms(4,5) same run have run1: "hierarchical_search imsize max_region_size st1 = Inr fin"
    by (simp add: hierarchical_search.simps [of _ _ st])
  from hierarchical_search_extends [OF run1] obtain X where "fst fin = fst st1 @ X" by blast
  with look1 have look: "map_of (fst fin) ?t = Some ?rt" by (simp add: map_of_append_left)
  then have "(?t, ?rt) \<in> set (fst fin)" by (rule map_of_SomeD)
  moreover have "?t \<notin> set ?pop"
    using first_region_to_pop_keys [of region_pop ?R max_region_size]
      initial_state_table [OF assms(2)] keys fresh by auto
  ultimately have "proposal_of ?rt \<in> set regions"
    unfolding out by (rule assemble_member)
  then have merged_rec: "\<lparr> rect = (min (min_x ri) (min_x rj), min (min_y ri) (min_y rj),
                max (max_x ri) (max_x rj) - min (min_x ri) (min_x rj),
                max (max_y ri) (max_y rj) - min (min_y ri) (min_y rj)),
         bbox_size_p = (max (max_x ri) (max_x rj) - min (min_x ri) (min_x rj))
                       * (max (max_y ri) (max_y rj) - min (min_y ri) (min_y rj)),
         size_p = size_r ri + size_r rj,
         labels_p = labels ri @ labels rj \<rparr> \<in> set regions"
    by (simp only: proposal_of_merge_regions)
  from run fin have "hierarchical_search imsize max_region_size st0 = Inr (fst fin, [])"
    by simp
  with look have final: "\<exists>Rf. hierarchical_search imsize max_region_size st0 = Inr (Rf, [])
          \<and> map_of Rf ?t = Some ?rt"
    by blast
  from edges1 no_edge later never final merged_rec show ?thesis by (intro conjI)
qed

theorem frozen_region_witness:
  "search_regions (extract_regions img7_mask img7_hsv img7_tex) 35 7 5 False 3 0
     = Inr (map proposal_of
              [img5_region 0 0 6 4 [0] 24 25, img5_region 1 1 3 3 [1] 4 8,
               img5_region 2 2 2 2 [2] 0 1, img5_region 5 3 5 3 [3] 0 1,
               img7_r4, img7_r5], [])
   \<and> initial_state (expand_regions (extract_regions img7_mask img7_hsv img7_tex) 0 7 5)
         35 False 3 = Inr img7_state
   \<and> img7_state \<in> set (run_states 35 3 img7_state)
   \<and> snd img7_state \<noteq> []
   \<and> merge_step 35 3 img7_state = Inr img7_state1
   \<and> map_of (fst img7_state) (fst (select_edge (snd img7_state)))
       = Some (img5_region 1 1 3 3 [1] 4 8)
   \<and> map_of (fst img7_state) (snd (select_edge (snd img7_state)))
       = Some (img5_region 2 2 2 2 [2] 0 1)
   \<and> bbox_size (merge_regions (img5_region 1 1 3 3 [1] 4 8) (img5_region 2 2 2 2 [2] 0 1)) > 3
   \<and> new_key (fst img7_state) = 4
   \<and> snd img7_state1 = [((0, 3), 151 / 35)]
   \<and> merges 35 3 img7_state1 = [(0, 3, 5)]
   \<and> \<lparr> rect = (1, 1, 2, 2), bbox_size_p = 4, size_p = 9, labels_p = [1, 2] \<rparr>
       \<in> set (map proposal_of
                [img5_region 0 0 6 4 [0] 24 25, img5_region 1 1 3 3 [1] 4 8,
                 img5_region 2 2 2 2 [2] 0 1, img5_region 5 3 5 3 [3] 0 1,
                 img7_r4, img7_r5])"
proof -
  let ?r1 = "img5_region 1 1 3 3 [1] 4 8" and ?r2 = "img5_region 2 2 2 2 [2] 0 1"
  have init: "initial_state (expand_regions (extract_regions img7_mask img7_hsv img7_tex) 0 7 5)
                35 False 3 = Inr img7_state"
    by (simp add: img7_extract img7_expand img7_initial)
  have edges: "snd img7_state \<noteq> []" by (simp add: img7_state_def)
  have ri: "map_of (fst img7_state) (fst (select_edge (snd img7_state))) = Some ?r1"
    by (simp add: img7_selected) (simp add: img7_state_def img7_table_def)
  have rj: "map_of (fst img7_state) (snd (select_edge (snd img7_state))) = Some ?r2"
    by (simp add: img7_selected) (simp add: img7_state_def img7_table_def)
  have big: "bbox_size (merge_regions ?r1 ?r2) > 3"
    by (simp add: merge_regions_def Let_def img5_region_def)
  have after: "snd img7_state1 = [((0, 3), 151 / 35)]" by (simp add: img7_state1_def)
  note frozen = frozen_region [OF img7_search init run_states_self edges img7_step ri rj big]
  from frozen have
    "\<lparr> rect = (min (min_x ?r1) (min_x ?r2), min (min_y ?r1) (min_y ?r2),
              max (max_x ?r1) (max_x ?r2) - min (min_x ?r1) (min_x ?r2),
              max (max_y ?r1) (max_y ?r2) - min (min_y ?r1) (min_y ?r2)),
       bbox_size_p = (max (max_x ?r1) (max_x ?r2) - min (min_x ?r1) (min_x ?r2))
                     * (max (max_y ?r1) (max_y ?r2) - min (min_y ?r1) (min_y ?r2)),
       size_p = size_r ?r1 + size_r ?r2,
       labels_p = labels ?r1 @ labels ?r2 \<rparr>
     \<in> set (map proposal_of
              [img5_region 0 0 6 4 [0] 24 25, img5_region 1 1 3 3 [1] 4 8,
               img5_region 2 2 2 2 [2] 0 1, img5_region 5 3 5 3 [3] 0 1,
               img7_r4, img7_r5])"
    by blast
  then have "\<lparr> rect = (1, 1, 2, 2), bbox_size_p = 4, size_p = 9, labels_p = [1, 2] \<rparr>
     \<in> set (map proposal_of
              [img5_region 0 0 6 4 [0] 24 25, img5_region 1 1 3 3 [1] 4 8,
               img5_region 2 2 2 2 [2] 0 1, img5_region 5 3 5 3 [3] 0 1,
               img7_r4, img7_r5])"
    by (simp add: img5_region_def)
  with img7_search init run_states_self edges img7_step ri rj big after
    img7_selected(2) img7_merges_later
  show ?thesis by blast
qed

end
